theory Spec2Isabelle
  imports Complex_Main "HOL-Library.Monad_Syntax" "HOL-Library.Product_Lexorder"
begin

section \<open>Smoothed-aggregation multigrid: the data model\<close>

text \<open>
  The development follows \<^verbatim>\<open>cusp/precond/detail/smoothed_aggregation.inl\<close>.
  \<^verbatim>\<open>IndexType\<close> is a template parameter holding signed indices; it is modelled by
  \<^typ>\<open>int\<close> (so that the marker \<open>-1\<close> can be written) and the sizes of
  \<^verbatim>\<open>matrix_base\<close> by \<^typ>\<open>nat\<close>. \<^verbatim>\<open>ValueType\<close> is modelled by \<^typ>\<open>real\<close>:
  arithmetic is exact, rounding is not represented, and a division by zero (an IEEE
  infinity or NaN in the program) is only ever met in statements that say so.

  A call that does not return normally (a failed \<^verbatim>\<open>assert\<close>, an exception, an access
  outside an array, a loop that is out of fuel) has the value \<open>None\<close>.
\<close>

record matrix_base =
  num_rows :: nat
  num_cols :: nat
  num_entries :: nat

record coo_matrix = matrix_base +
  row_indices :: "int list"
  column_indices :: "int list"
  vals :: "real list"

record csr_matrix_view = matrix_base +
  view_row_offsets :: "int list"
  view_column_indices :: "int list"
  view_values :: "real list"

text \<open>The struct \<^verbatim>\<open>level\<close>; the field names carry a prefix, the members are
  \<^verbatim>\<open>R, A, P, aggregates, B, x, b, residual, smoother\<close>, the three row-offset arrays and
  the three views.\<close>

record 's level =
  lvl_R :: coo_matrix
  lvl_A :: coo_matrix
  lvl_P :: coo_matrix
  lvl_aggregates :: "int list"
  lvl_B :: "real list"
  lvl_x :: "real list"
  lvl_b :: "real list"
  lvl_residual :: "real list"
  lvl_smoother :: 's
  lvl_R_row_offsets :: "int list"
  lvl_A_row_offsets :: "int list"
  lvl_P_row_offsets :: "int list"
  lvl_R_view :: csr_matrix_view
  lvl_A_view :: csr_matrix_view
  lvl_P_view :: csr_matrix_view

record ('s, 'lu) smoothed_aggregation =
  theta :: real
  levels :: "'s level list"
  LU :: 'lu

section \<open>Library primitives\<close>

text \<open>An \<^verbatim>\<open>assert\<close>, or a condition whose failure ends the call.\<close>

definition assert_that :: "bool \<Rightarrow> unit option" where
  "assert_that c = (if c then Some () else None)"

text \<open>\<^verbatim>\<open>array1d::resize(n, v)\<close>: the leading elements are kept, new ones are \<open>v\<close>
  (zero when no value is given).\<close>

definition resize :: "real list \<Rightarrow> nat \<Rightarrow> real \<Rightarrow> real list" where
  "resize xs n v = take n xs @ replicate (n - length xs) v"

text \<open>\<^verbatim>\<open>*thrust::max_element(first, last)\<close>: on an empty range the end iterator is
  dereferenced, which has no defined result.\<close>

fun max_element :: "int list \<Rightarrow> int option" where
  "max_element [] = None"
| "max_element (a # as) = Some (fold max as a)"

text \<open>\<^verbatim>\<open>thrust::gather\<close> and a read through a \<^verbatim>\<open>permutation_iterator\<close>:
  element \<open>k\<close> of the result is \<open>src[idx[k]]\<close>. An index outside \<open>src\<close> has no defined
  result.\<close>

definition gather :: "int list \<Rightarrow> 'a list \<Rightarrow> 'a list option" where
  "gather idx src =
     (if list_all (\<lambda>i. 0 \<le> i \<and> nat i < length src) idx
      then Some (map (\<lambda>i. src ! nat i) idx) else None)"

text \<open>\<^verbatim>\<open>thrust::reduce_by_key\<close> with \<^verbatim>\<open>plus\<close>: every run of consecutive equal keys
  becomes one key with the sum of the run's values, summed from the left.\<close>

fun reduce_run :: "'k \<Rightarrow> real \<Rightarrow> ('k \<times> real) list \<Rightarrow> ('k \<times> real) list" where
  "reduce_run k acc [] = [(k, acc)]"
| "reduce_run k acc ((k', v) # kvs) =
     (if k' = k then reduce_run k (acc + v) kvs else (k, acc) # reduce_run k' v kvs)"

fun reduce_by_key :: "('k \<times> real) list \<Rightarrow> ('k \<times> real) list" where
  "reduce_by_key [] = []"
| "reduce_by_key ((k, v) # kvs) = reduce_run k v kvs"

text \<open>The \<^verbatim>\<open>thrust::inner_product\<close> of \<^verbatim>\<open>smooth_prolongator\<close>: over the ranges
  \<open>[begin, end - 1)\<close> and \<open>[begin + 1, end)\<close> it counts the neighbours that differ,
  starting from \<open>IndexType(0)\<close>.\<close>

fun count_changes :: "'k list \<Rightarrow> int" where
  "count_changes (k # k' # ks) = (if k \<noteq> k' then 1 else 0) + count_changes (k' # ks)"
| "count_changes ks = 0"

section \<open>Sparse-matrix collaborators with a fixed meaning\<close>

definition coo_entries :: "coo_matrix \<Rightarrow> (int \<times> int \<times> real) list" where
  "coo_entries M = zip (row_indices M) (zip (column_indices M) (vals M))"

text \<open>The invariant of a \<^verbatim>\<open>coo_matrix\<close>: each of its three arrays has
  \<^verbatim>\<open>num_entries\<close> elements.\<close>

definition coo_wf :: "coo_matrix \<Rightarrow> bool" where
  "coo_wf M \<longleftrightarrow>
     length (row_indices M) = num_entries M \<and>
     length (column_indices M) = num_entries M \<and>
     length (vals M) = num_entries M"

text \<open>Modelled from the spec: \<^verbatim>\<open>cusp::transpose\<close> is not in the source file; the spec
  names it among the generic sparse-matrix primitives (section 1) and uses it as the
  transpose. The model swaps the two index arrays and the two dimensions and sorts the
  entries by their new row index, keeping the order of entries of one row.\<close>

definition transpose_coo :: "coo_matrix \<Rightarrow> coo_matrix" where
  "transpose_coo M =
     (let es = sort_key fst (zip (column_indices M) (zip (row_indices M) (vals M)))
      in \<lparr> num_rows = num_cols M, num_cols = num_rows M, num_entries = num_entries M,
           row_indices = map fst es,
           column_indices = map (\<lambda>e. fst (snd e)) es,
           vals = map (\<lambda>e. snd (snd e)) es \<rparr>)"

text \<open>Modelled from the spec: \<^verbatim>\<open>cusp::detail::sort_by_row_and_column\<close> is not in the
  source file; the spec (4.3, step 5) says: sort all entries by \<open>(row, col)\<close>.\<close>

definition sort_by_row_and_column ::
  "(int \<times> int \<times> real) list \<Rightarrow> (int \<times> int \<times> real) list" where
  "sort_by_row_and_column es = sort_key (\<lambda>e. (fst e, fst (snd e))) es"

text \<open>Modelled from the spec: \<^verbatim>\<open>cusp::detail::extract_diagonal\<close> is not in the source
  file; the spec (4.3) calls its result \<open>D\<close>, the diagonal of the matrix. Element \<open>i\<close> is
  the value stored at \<open>(i, i)\<close> (the last one, should the position be stored twice) and
  zero when no entry is stored there.\<close>

definition extract_diagonal :: "coo_matrix \<Rightarrow> real list" where
  "extract_diagonal M =
     map (\<lambda>i. case filter (\<lambda>e. fst e = int i \<and> fst (snd e) = int i) (coo_entries M) of
                 [] \<Rightarrow> 0
               | e # es \<Rightarrow> snd (snd (last (e # es))))
         [0..<num_rows M]"

text \<open>Modelled from the spec: \<^verbatim>\<open>cusp::detail::indices_to_offsets\<close> is not in the source
  file; the spec (section 3) speaks of views in a row-compressed layout. Offset \<open>i\<close> is
  the number of entries whose row index is below \<open>i\<close>.\<close>

definition indices_to_offsets :: "int list \<Rightarrow> nat \<Rightarrow> int list" where
  "indices_to_offsets idx n =
     map (\<lambda>i. int (length (filter (\<lambda>r. r < int i) idx))) [0..<n]"

text \<open>Modelled from the spec: \<^verbatim>\<open>cusp::blas::axpby\<close> and \<^verbatim>\<open>cusp::blas::axpy\<close> are not
  in the source file. \<open>axpby x y alpha beta\<close> is the new content of the output array,
  \<open>alpha * x + beta * y\<close>, and \<open>axpy x y alpha\<close> the new content of \<open>y\<close>,
  \<open>y + alpha * x\<close>; a mismatched vector length is the spec's InvalidInput (section 7).\<close>

definition axpby :: "real list \<Rightarrow> real list \<Rightarrow> real \<Rightarrow> real \<Rightarrow> real list option" where
  "axpby x y alpha beta =
     (if length x = length y then Some (map2 (\<lambda>a c. alpha * a + beta * c) x y) else None)"

definition axpy :: "real list \<Rightarrow> real list \<Rightarrow> real \<Rightarrow> real list option" where
  "axpy x y alpha =
     (if length x = length y then Some (map2 (\<lambda>a c. c + alpha * a) x y) else None)"

section \<open>Collaborators taken as parameters\<close>

text \<open>A matrix argument of a generic cusp function: the file passes COO matrices and
  CSR views.\<close>

datatype sparse_matrix = Coo coo_matrix | Csr_view csr_matrix_view

fun sm_num_rows :: "sparse_matrix \<Rightarrow> nat" where
  "sm_num_rows (Coo M) = num_rows M"
| "sm_num_rows (Csr_view M) = num_rows M"

fun sm_num_cols :: "sparse_matrix \<Rightarrow> nat" where
  "sm_num_cols (Coo M) = num_cols M"
| "sm_num_cols (Csr_view M) = num_cols M"

fun sm_num_entries :: "sparse_matrix \<Rightarrow> nat" where
  "sm_num_entries (Coo M) = num_entries M"
| "sm_num_entries (Csr_view M) = num_entries M"

record linear_operator = matrix_base +
  op_apply :: "real list \<Rightarrow> real list"

text \<open>The functions of the library that the file calls and does not define. Each is a
  field of this record and nothing is assumed of it beyond its type:
  strength of connection, aggregation (from \<open>C\<close> and the initial array), the Ritz
  estimate of a spectral radius, the sparse matrix product, the matrix-vector product
  (the new content of the output array), the diagonal preconditioner of a matrix
  applied to a vector, the Jacobi smoother with its two sweeps (the new content of
  \<open>x\<close>), the default smoother of a fresh \<^verbatim>\<open>level\<close>, and the dense LU solver
  (built from the matrix; applied to \<open>b\<close> and the output array).\<close>

record ('s, 'lu) collaborators =
  symmetric_strength_of_connection :: "coo_matrix \<Rightarrow> real \<Rightarrow> coo_matrix"
  standard_aggregation :: "coo_matrix \<Rightarrow> int list \<Rightarrow> int list"
  ritz_spectral_radius :: "linear_operator \<Rightarrow> real"
  multiply_mm :: "coo_matrix \<Rightarrow> coo_matrix \<Rightarrow> coo_matrix"
  multiply_mv :: "sparse_matrix \<Rightarrow> real list \<Rightarrow> real list"
  diagonal_mv :: "sparse_matrix \<Rightarrow> real list \<Rightarrow> real list"
  jacobi :: "coo_matrix \<Rightarrow> real \<Rightarrow> 's"
  presmooth :: "'s \<Rightarrow> csr_matrix_view \<Rightarrow> real list \<Rightarrow> real list \<Rightarrow> real list"
  postsmooth :: "'s \<Rightarrow> csr_matrix_view \<Rightarrow> real list \<Rightarrow> real list \<Rightarrow> real list"
  default_smoother :: 's
  lu_solver :: "coo_matrix \<Rightarrow> 'lu"
  lu_solve :: "'lu \<Rightarrow> real list \<Rightarrow> real list \<Rightarrow> real list"

section \<open>Spectral radius of \<open>D\<^sup>-\<^sup>1 A\<close>\<close>

text \<open>The struct \<^verbatim>\<open>Dinv_A\<close>: a linear operator of the size of \<open>A\<close> with
  \<open>A.num_entries + A.num_rows\<close> entries, whose application multiplies by \<open>A\<close> and then
  by the diagonal preconditioner.\<close>

definition Dinv_A :: "('s, 'lu) collaborators \<Rightarrow> sparse_matrix \<Rightarrow> linear_operator" where
  "Dinv_A ext M =
     \<lparr> num_rows = sm_num_rows M, num_cols = sm_num_cols M,
       num_entries = sm_num_entries M + sm_num_rows M,
       op_apply = (\<lambda>x. diagonal_mv ext M (multiply_mv ext M x)) \<rparr>"

definition estimate_rho_Dinv_A :: "('s, 'lu) collaborators \<Rightarrow> sparse_matrix \<Rightarrow> real" where
  "estimate_rho_Dinv_A ext M = ritz_spectral_radius ext (Dinv_A ext M)"

section \<open>The tentative prolongator\<close>

text \<open>\<^verbatim>\<open>fit_candidates(aggregates, B, Q, R)\<close>, called with fresh \<open>Q\<close> and \<open>R\<close>; the
  result is the pair \<open>(Q, R)\<close>. The steps that can leave the arrays are written as
  conditions: the maximum of an empty array, a negative size, the copy of a longer
  \<open>B\<close> into \<open>Q.values\<close>, more reduced keys than \<open>R\<close> has elements, and the read of
  \<open>R\<close> at the column indices.\<close>

definition fit_candidates :: "int list \<Rightarrow> real list \<Rightarrow> (coo_matrix \<times> real list) option" where
  "fit_candidates aggs Bv = do {
     m \<leftarrow> max_element aggs;
     let num_aggregates = m + 1;
     _ \<leftarrow> assert_that (0 \<le> num_aggregates);
     _ \<leftarrow> assert_that (length Bv \<le> length aggs);
     let n = length aggs;
     let Q = \<lparr> num_rows = n, num_cols = nat num_aggregates, num_entries = n,
               row_indices = map int [0..<n],
               column_indices = aggs,
               vals = Bv @ replicate (n - length Bv) 0 \<rparr>;
     let Qt = transpose_coo Q;
     let sq_sums = reduce_by_key (zip (row_indices Qt) (map (\<lambda>v. v * v) (vals Qt)));
     _ \<leftarrow> assert_that (length sq_sums \<le> nat num_aggregates);
     let Rv = map sqrt (map snd sq_sums @ replicate (nat num_aggregates - length sq_sums) 0);
     denoms \<leftarrow> gather (column_indices Q) Rv;
     Some (Q \<lparr> vals := map2 (\<lambda>v d. v / d) (vals Q) denoms \<rparr>, Rv)
   }"

section \<open>The smoothed prolongator\<close>

text \<open>\<^verbatim>\<open>smooth_prolongator(S, T, P, omega, rho_Dinv_S)\<close>, called with a fresh \<open>P\<close>;
  the result is \<open>P\<close>. The matrices satisfy \<^const>\<open>coo_wf\<close>. The staging matrix
  \<^verbatim>\<open>temp\<close> is the list of its entries; \<open>P\<close> is resized to \<open>NNZ\<close> entries and receives
  the reduced entries.\<close>

definition smooth_prolongator ::
  "('s, 'lu) collaborators \<Rightarrow> coo_matrix \<Rightarrow> coo_matrix \<Rightarrow> real \<Rightarrow> real \<Rightarrow> coo_matrix option" where
  "smooth_prolongator ext S T omega rho_Dinv_S = do {
     _ \<leftarrow> assert_that (num_entries T = num_rows T);
     let lambda = omega / (if rho_Dinv_S = 0 then estimate_rho_Dinv_A ext (Coo S) else rho_Dinv_S);
     temp_cols \<leftarrow> gather (column_indices S) (column_indices T);
     t_vals \<leftarrow> gather (column_indices S) (vals T);
     let v1 = map2 (\<lambda>s t. s * t) (vals S) t_vals;
     let v2 = map (\<lambda>v. v * (- lambda)) v1;
     let D = extract_diagonal S;
     d \<leftarrow> gather (row_indices S) D;
     let v3 = map2 (\<lambda>v di. v / di) v2 d;
     let temp = zip (row_indices S @ row_indices T)
                  (zip (temp_cols @ column_indices T) (v3 @ vals T));
     let sorted_temp = sort_by_row_and_column temp;
     _ \<leftarrow> assert_that (sorted_temp \<noteq> []);
     let keys = map (\<lambda>e. (fst e, fst (snd e))) sorted_temp;
     let NNZ = count_changes keys + 1;
     let out = reduce_by_key (zip keys (map (\<lambda>e. snd (snd e)) sorted_temp));
     Some \<lparr> num_rows = num_rows S, num_cols = num_cols T, num_entries = nat NNZ,
            row_indices = map (\<lambda>e. fst (fst e)) out,
            column_indices = map (\<lambda>e. snd (fst e)) out,
            vals = map snd out \<rparr>
   }"

section \<open>Building the hierarchy\<close>

definition empty_coo :: coo_matrix where
  "empty_coo = \<lparr> num_rows = 0, num_cols = 0, num_entries = 0,
                 row_indices = [], column_indices = [], vals = [] \<rparr>"

definition empty_view :: csr_matrix_view where
  "empty_view = \<lparr> num_rows = 0, num_cols = 0, num_entries = 0,
                  view_row_offsets = [], view_column_indices = [], view_values = [] \<rparr>"

text \<open>A default-constructed \<^verbatim>\<open>level\<close>: empty matrices, arrays and views.\<close>

definition new_level :: "('s, 'lu) collaborators \<Rightarrow> 's level" where
  "new_level ext =
     \<lparr> lvl_R = empty_coo, lvl_A = empty_coo, lvl_P = empty_coo,
       lvl_aggregates = [], lvl_B = [], lvl_x = [], lvl_b = [], lvl_residual = [],
       lvl_smoother = default_smoother ext,
       lvl_R_row_offsets = [], lvl_A_row_offsets = [], lvl_P_row_offsets = [],
       lvl_R_view = empty_view, lvl_A_view = empty_view, lvl_P_view = empty_view \<rparr>"

text \<open>\<^verbatim>\<open>setup_view(M, M_view, row_offsets)\<close>: the pair of the new row offsets and the
  new view; the view reads the column indices and the values of \<open>M\<close>.\<close>

definition setup_view :: "coo_matrix \<Rightarrow> int list \<times> csr_matrix_view" where
  "setup_view M =
     (let row_offsets = indices_to_offsets (row_indices M) (num_rows M + 1)
      in (row_offsets,
          \<lparr> num_rows = num_rows M, num_cols = num_cols M, num_entries = num_entries M,
            view_row_offsets = row_offsets,
            view_column_indices = column_indices M,
            view_values = vals M \<rparr>))"

text \<open>\<^verbatim>\<open>extend_hierarchy\<close> on the level list: the last level receives its operators,
  its smoother and its views, and a new last level is pushed.\<close>

definition extend_hierarchy ::
  "('s, 'lu) collaborators \<Rightarrow> real \<Rightarrow> 's level list \<Rightarrow> 's level list option" where
  "extend_hierarchy ext th ls = do {
     _ \<leftarrow> assert_that (ls \<noteq> []);
     let back = last ls;
     let A = lvl_A back;
     let Bv = lvl_B back;
     let C = symmetric_strength_of_connection ext A th;
     let back = back \<lparr> lvl_A_row_offsets := fst (setup_view A), lvl_A_view := snd (setup_view A) \<rparr>;
     let rho_DinvA = estimate_rho_Dinv_A ext (Csr_view (lvl_A_view back));
     let aggs = standard_aggregation ext C (replicate (num_rows C) 0);
     (T, B_coarse) \<leftarrow> fit_candidates aggs Bv;
     P \<leftarrow> smooth_prolongator ext A T (4 / 3) rho_DinvA;
     let Rm = transpose_coo P;
     let AP = multiply_mm ext A P;
     let RAP = multiply_mm ext Rm AP;
     let omega = (4 / 3) / rho_DinvA;
     let back = back \<lparr> lvl_smoother := jacobi ext A omega \<rparr>;
     let back = back \<lparr> lvl_aggregates := aggs, lvl_R := Rm, lvl_P := P,
                       lvl_residual := resize (lvl_residual back) (num_rows A) 0 \<rparr>;
     let back = back \<lparr> lvl_R_row_offsets := fst (setup_view Rm), lvl_R_view := snd (setup_view Rm),
                       lvl_P_row_offsets := fst (setup_view P), lvl_P_view := snd (setup_view P) \<rparr>;
     let pushed = (new_level ext) \<lparr> lvl_A := RAP, lvl_B := B_coarse,
                       lvl_x := resize [] (num_rows RAP) 0,
                       lvl_b := resize [] (num_rows RAP) 0 \<rparr>;
     Some (butlast ls @ [back, pushed])
   }"

text \<open>The loop \<^verbatim>\<open>while (levels.back().A.num_rows > 100) extend_hierarchy();\<close> with
  fuel: one unit for each call of \<^verbatim>\<open>extend_hierarchy\<close>.\<close>

fun coarsen :: "nat \<Rightarrow> ('s, 'lu) collaborators \<Rightarrow> real \<Rightarrow> 's level list \<Rightarrow> 's level list option" where
  "coarsen fuel ext th ls =
     (if ls \<noteq> [] \<and> num_rows (lvl_A (last ls)) > 100 then
        (case fuel of
           0 \<Rightarrow> None
         | Suc fuel' \<Rightarrow> Option.bind (extend_hierarchy ext th ls) (coarsen fuel' ext th))
      else Some ls)"

text \<open>The constructor \<^verbatim>\<open>smoothed_aggregation(A, theta)\<close>.\<close>

definition build ::
  "nat \<Rightarrow> ('s, 'lu) collaborators \<Rightarrow> coo_matrix \<Rightarrow> real \<Rightarrow> ('s, 'lu) smoothed_aggregation option" where
  "build fuel ext A th = do {
     let first = (new_level ext) \<lparr> lvl_A := A, lvl_B := resize [] (num_rows A) 1 \<rparr>;
     ls \<leftarrow> coarsen fuel ext th [first];
     Some \<lparr> theta = th, levels = ls, LU = lu_solver ext (lvl_A (last ls)) \<rparr>
   }"

section \<open>The V-cycle\<close>

text \<open>\<^verbatim>\<open>_solve(b, x, i)\<close>. The arrays \<open>b\<close> and \<open>x\<close> are passed by reference; the result
  is the new content of \<open>x\<close> and the object with its scratch arrays as the call leaves
  them. In the recursive call \<open>b\<close> and \<open>x\<close> are \<^verbatim>\<open>levels[i + 1].b\<close> and
  \<^verbatim>\<open>levels[i + 1].x\<close>, so the new \<open>x\<close> is stored there. \<^verbatim>\<open>cusp::multiply(A, x, y)\<close>
  overwrites \<open>y\<close>. An index \<open>i\<close> beyond the last level has no defined result.\<close>

function solve_level ::
  "('s, 'lu) collaborators \<Rightarrow> ('s, 'lu) smoothed_aggregation \<Rightarrow> real list \<Rightarrow> real list \<Rightarrow> nat
   \<Rightarrow> (real list \<times> ('s, 'lu) smoothed_aggregation) option" where
  "solve_level ext h bv xv i =
     (if i + 1 = length (levels h) then
        (let temp_b = bv;
             temp_x = resize [] (length xv) 0
         in Some (lu_solve ext (LU h) temp_b temp_x, h))
      else if length (levels h) \<le> i then None
      else do {
        let lv = levels h ! i;
        let Rv = lvl_R_view lv;
        let Av = lvl_A_view lv;
        let Pv = lvl_P_view lv;
        let x1 = presmooth ext (lvl_smoother lv) Av bv xv;
        let res0 = multiply_mv ext (Csr_view Av) x1;
        res1 \<leftarrow> axpby bv res0 1 (- 1);
        let coarse_b = multiply_mv ext (Csr_view Rv) res1;
        let h1 = h \<lparr> levels := (levels h)
                   [i := lv \<lparr> lvl_residual := res1 \<rparr>,
                    Suc i := (levels h ! Suc i) \<lparr> lvl_b := coarse_b \<rparr>] \<rparr>;
        (coarse_x, h2) \<leftarrow> solve_level ext h1 coarse_b (lvl_x (levels h1 ! Suc i)) (Suc i);
        let res2 = multiply_mv ext (Csr_view Pv) coarse_x;
        let h3 = h2 \<lparr> levels := (levels h2)
                   [Suc i := (levels h2 ! Suc i) \<lparr> lvl_x := coarse_x \<rparr>,
                    i := (levels h2 ! i) \<lparr> lvl_residual := res2 \<rparr>] \<rparr>;
        x2 \<leftarrow> axpy res2 x1 1;
        Some (postsmooth ext (lvl_smoother lv) Av bv x2, h3)
      })"
  by pat_completeness auto
termination
  by (relation "measure (\<lambda>(ext, h, bv, xv, i). length (levels h) - i)") auto

text \<open>\<^verbatim>\<open>operator()(b, x)\<close>: one V-cycle from level \<open>0\<close>.\<close>

definition apply_vcycle ::
  "('s, 'lu) collaborators \<Rightarrow> ('s, 'lu) smoothed_aggregation \<Rightarrow> real list \<Rightarrow> real list
   \<Rightarrow> (real list \<times> ('s, 'lu) smoothed_aggregation) option" where
  "apply_vcycle ext h bv xv = solve_level ext h bv xv 0"

section \<open>The monitored iteration\<close>

text \<open>The \<^verbatim>\<open>Monitor\<close> template parameter: \<^verbatim>\<open>monitor.finished(residual)\<close> answers and
  may update the monitor, \<^verbatim>\<open>++monitor\<close> advances it.\<close>

record 'm monitor_ops =
  finished :: "'m \<Rightarrow> real list \<Rightarrow> bool \<times> 'm"
  increment :: "'m \<Rightarrow> 'm"

text \<open>The loop of \<^verbatim>\<open>solve(b, x, monitor)\<close>, with one unit of fuel for each pass. The
  state is the object, \<open>x\<close>, the local arrays \<open>update\<close> and \<open>residual\<close>, and the
  monitor.\<close>

fun solve_loop ::
  "nat \<Rightarrow> ('s, 'lu) collaborators \<Rightarrow> 'm monitor_ops \<Rightarrow> csr_matrix_view \<Rightarrow> real list
   \<Rightarrow> ('s, 'lu) smoothed_aggregation \<Rightarrow> real list \<Rightarrow> real list \<Rightarrow> real list \<Rightarrow> 'm
   \<Rightarrow> (real list \<times> 'm \<times> ('s, 'lu) smoothed_aggregation) option" where
  "solve_loop fuel ext mon Av bv h xv update res m =
     (case finished mon m res of
        (True, m1) \<Rightarrow> Some (xv, m1, h)
      | (False, m1) \<Rightarrow>
          (case fuel of
             0 \<Rightarrow> None
           | Suc fuel' \<Rightarrow> do {
               (update', h') \<leftarrow> solve_level ext h res update 0;
               x' \<leftarrow> axpy update' xv 1;
               let res0 = multiply_mv ext (Csr_view Av) x';
               res' \<leftarrow> axpby bv res0 1 (- 1);
               solve_loop fuel' ext mon Av bv h' x' update' res' (increment mon m1)
             }))"

text \<open>\<^verbatim>\<open>solve(b, x, monitor)\<close>: the result is \<open>x\<close>, the monitor and the object.\<close>

definition solve ::
  "nat \<Rightarrow> ('s, 'lu) collaborators \<Rightarrow> 'm monitor_ops \<Rightarrow> ('s, 'lu) smoothed_aggregation
   \<Rightarrow> real list \<Rightarrow> real list \<Rightarrow> 'm
   \<Rightarrow> (real list \<times> 'm \<times> ('s, 'lu) smoothed_aggregation) option" where
  "solve fuel ext mon h bv xv m = do {
     _ \<leftarrow> assert_that (levels h \<noteq> []);
     let Av = lvl_A_view (levels h ! 0);
     let update = resize [] (num_rows Av) 0;
     let res = resize [] (num_rows Av) 0;
     let res0 = multiply_mv ext (Csr_view Av) xv;
     res1 \<leftarrow> axpby bv res0 1 (- 1);
     solve_loop fuel ext mon Av bv h xv update res1 m
   }"

text \<open>Modelled from the spec: \<^verbatim>\<open>cusp::default_monitor\<close> is not in the source file; the
  spec (section 6) asks for a default monitor based on the relative residual norm and
  a maximum iteration count. The limit and the tolerance are parameters.\<close>

record default_monitor =
  b_norm :: real
  r_norm :: real
  iteration_limit :: nat
  iteration_count :: nat
  relative_tolerance :: real

definition nrm2 :: "real list \<Rightarrow> real" where
  "nrm2 v = sqrt (sum_list (map (\<lambda>a. a * a) v))"

definition make_default_monitor :: "nat \<Rightarrow> real \<Rightarrow> real list \<Rightarrow> default_monitor" where
  "make_default_monitor limit tol bv =
     \<lparr> b_norm = nrm2 bv, r_norm = 0, iteration_limit = limit, iteration_count = 0,
       relative_tolerance = tol \<rparr>"

definition default_monitor_ops :: "default_monitor monitor_ops" where
  "default_monitor_ops =
     \<lparr> finished = (\<lambda>m r.
         (let m1 = m \<lparr> r_norm := nrm2 r \<rparr>
          in (r_norm m1 \<le> relative_tolerance m1 * b_norm m1
                \<or> iteration_limit m1 \<le> iteration_count m1, m1))),
       increment = (\<lambda>m. m \<lparr> iteration_count := Suc (iteration_count m) \<rparr>) \<rparr>"

text \<open>\<^verbatim>\<open>solve(b, x)\<close>: the monitor is a local variable, so only \<open>x\<close> and the object
  are left.\<close>

definition solve_default ::
  "nat \<Rightarrow> nat \<Rightarrow> real \<Rightarrow> ('s, 'lu) collaborators \<Rightarrow> ('s, 'lu) smoothed_aggregation
   \<Rightarrow> real list \<Rightarrow> real list \<Rightarrow> (real list \<times> ('s, 'lu) smoothed_aggregation) option" where
  "solve_default fuel limit tol ext h bv xv =
     map_option (\<lambda>(x', m', h'). (x', h'))
       (solve fuel ext default_monitor_ops h bv xv (make_default_monitor limit tol bv))"

section \<open>The V-cycle in the words of the specification\<close>

text \<open>The two transitions of section 4.4 on the list of the levels from the current
  one on: at the last level the stored factorization solves the system; before it, the
  level presmooths \<open>x\<close>, forms \<open>r = b - A x\<close>, restricts \<open>coarse_b = R r\<close>, solves at the
  next level from the value its \<open>x\<close> holds, adds \<open>P coarse_x\<close> to \<open>x\<close> and postsmooths.\<close>

definition vec_sub :: "real list \<Rightarrow> real list \<Rightarrow> real list option" where
  "vec_sub u v = (if length u = length v then Some (map2 (\<lambda>a c. a - c) u v) else None)"

definition vec_add :: "real list \<Rightarrow> real list \<Rightarrow> real list option" where
  "vec_add u v = (if length u = length v then Some (map2 (\<lambda>a c. a + c) u v) else None)"

fun v_cycle ::
  "('s, 'lu) collaborators \<Rightarrow> 'lu \<Rightarrow> 's level list \<Rightarrow> real list \<Rightarrow> real list \<Rightarrow> real list option" where
  "v_cycle ext lu [] bv xv = None"
| "v_cycle ext lu [l] bv xv = Some (lu_solve ext lu bv (replicate (length xv) 0))"
| "v_cycle ext lu (l # l' # ls) bv xv = do {
     let x1 = presmooth ext (lvl_smoother l) (lvl_A_view l) bv xv;
     r \<leftarrow> vec_sub bv (multiply_mv ext (Csr_view (lvl_A_view l)) x1);
     let coarse_b = multiply_mv ext (Csr_view (lvl_R_view l)) r;
     coarse_x \<leftarrow> v_cycle ext lu (l' # ls) coarse_b (lvl_x l');
     x2 \<leftarrow> vec_add x1 (multiply_mv ext (Csr_view (lvl_P_view l)) coarse_x);
     Some (postsmooth ext (lvl_smoother l) (lvl_A_view l) bv x2)
   }"

text \<open>Two objects with the same operators: the same factorization and, level by
  level, the same matrices, smoothers and views, and scratch arrays \<open>x\<close> of the same
  size; the contents of the scratch arrays are free.\<close>

definition same_operators_level :: "'s level \<Rightarrow> 's level \<Rightarrow> bool" where
  "same_operators_level l1 l2 \<longleftrightarrow>
     lvl_smoother l1 = lvl_smoother l2 \<and>
     lvl_R_view l1 = lvl_R_view l2 \<and> lvl_A_view l1 = lvl_A_view l2 \<and>
     lvl_P_view l1 = lvl_P_view l2 \<and>
     length (lvl_x l1) = length (lvl_x l2)"

definition same_operators ::
  "('s, 'lu) smoothed_aggregation \<Rightarrow> ('s, 'lu) smoothed_aggregation \<Rightarrow> bool" where
  "same_operators h1 h2 \<longleftrightarrow>
     LU h1 = LU h2 \<and> list_all2 same_operators_level (levels h1) (levels h2)"

text \<open>A presmoother that overwrites \<open>x\<close>: its result does not depend on the content
  of \<open>x\<close> at the call (section 4.4: the default is to overwrite, not to accumulate).\<close>

definition presmooth_overwrites :: "('s, 'lu) collaborators \<Rightarrow> bool" where
  "presmooth_overwrites ext \<longleftrightarrow>
     (\<forall>s Av bv xv xv'. presmooth ext s Av bv xv = presmooth ext s Av bv xv')"

section \<open>Matrices as functions of their coordinates\<close>

text \<open>The value of a COO matrix at a position is the sum of the values stored there.\<close>

definition entry :: "coo_matrix \<Rightarrow> int \<Rightarrow> int \<Rightarrow> real" where
  "entry M i j =
     sum_list (map (\<lambda>e. snd (snd e)) (filter (\<lambda>e. fst e = i \<and> fst (snd e) = j) (coo_entries M)))"

section \<open>A concrete instance of the collaborators\<close>

text \<open>Modelled from the spec: the sparse products are not in the source file; the spec
  lists them among the generic sparse-matrix primitives (section 1). These are the
  plain products, used where a function is evaluated on a concrete input: the
  matrix-vector product of a CSR view and of a COO matrix, and the matrix product with
  one entry for every pair of entries that meet.\<close>

definition csr_spmv :: "csr_matrix_view \<Rightarrow> real list \<Rightarrow> real list" where
  "csr_spmv Av v =
     map (\<lambda>i. \<Sum>k\<leftarrow>[nat (view_row_offsets Av ! i)..<nat (view_row_offsets Av ! Suc i)].
                 view_values Av ! k * v ! nat (view_column_indices Av ! k))
         [0..<num_rows Av]"

definition coo_spmv :: "coo_matrix \<Rightarrow> real list \<Rightarrow> real list" where
  "coo_spmv M v =
     map (\<lambda>i. \<Sum>e\<leftarrow>filter (\<lambda>e. fst e = int i) (coo_entries M). snd (snd e) * v ! nat (fst (snd e)))
         [0..<num_rows M]"

definition coo_product :: "coo_matrix \<Rightarrow> coo_matrix \<Rightarrow> coo_matrix" where
  "coo_product X Y =
     (let es = concat (map (\<lambda>e. map (\<lambda>f. (fst e, fst (snd f), snd (snd e) * snd (snd f)))
                                   (filter (\<lambda>f. fst f = fst (snd e)) (coo_entries Y)))
                           (coo_entries X))
      in \<lparr> num_rows = num_rows X, num_cols = num_cols Y, num_entries = length es,
           row_indices = map fst es,
           column_indices = map (\<lambda>e. fst (snd e)) es,
           vals = map (\<lambda>e. snd (snd e)) es \<rparr>)"

text \<open>An instance of the collaborators for concrete inputs: every entry is strong,
  rows \<open>2k\<close> and \<open>2k + 1\<close> form aggregate \<open>k\<close>, the spectral radius is estimated as \<open>2\<close>,
  the smoother is weighted Jacobi on the stored diagonal (its first sweep overwrites
  \<open>x\<close>), and the coarse solver divides by the diagonal.\<close>

definition sample_ext :: "(real \<times> real list, real list) collaborators" where
  "sample_ext =
     \<lparr> symmetric_strength_of_connection = (\<lambda>M th. M),
       standard_aggregation = (\<lambda>C init. map (\<lambda>i. int (i div 2)) [0..<length init]),
       ritz_spectral_radius = (\<lambda>lin. 2),
       multiply_mm = coo_product,
       multiply_mv = (\<lambda>M v. case M of Coo M' \<Rightarrow> coo_spmv M' v | Csr_view M' \<Rightarrow> csr_spmv M' v),
       diagonal_mv = (\<lambda>M v. v),
       jacobi = (\<lambda>M om. (om, extract_diagonal M)),
       presmooth = (\<lambda>s Av bv xv. map2 (\<lambda>bi di. fst s * bi / di) bv (snd s)),
       postsmooth = (\<lambda>s Av bv xv.
          map2 (\<lambda>xi ri. xi + fst s * ri)
            xv (map2 (\<lambda>ci di. ci / di) (map2 (\<lambda>bi yi. bi - yi) bv (csr_spmv Av xv)) (snd s))),
       default_smoother = (0, []),
       lu_solver = extract_diagonal,
       lu_solve = (\<lambda>d bv xv. map2 (\<lambda>bi di. bi / di) bv d) \<rparr>"

text \<open>A matrix with one row, one column and no stored entry, and the matrix without
  rows.\<close>

definition zero_1x1 :: coo_matrix where
  "zero_1x1 = \<lparr> num_rows = 1, num_cols = 1, num_entries = 0,
                row_indices = [], column_indices = [], vals = [] \<rparr>"

text \<open>A hierarchy of two levels written out by hand, for concrete inputs: the operator
  \<open>[[2, -1], [-1, 2]]\<close>, both rows in one aggregate, \<open>P = [[1], [1]]\<close>, its transpose
  \<open>R\<close>, and the coarse operator \<open>[[2]]\<close>.\<close>

definition sample_A0 :: coo_matrix where
  "sample_A0 = \<lparr> num_rows = 2, num_cols = 2, num_entries = 4,
                 row_indices = [0, 0, 1, 1], column_indices = [0, 1, 0, 1],
                 vals = [2, - 1, - 1, 2] \<rparr>"

definition sample_P0 :: coo_matrix where
  "sample_P0 = \<lparr> num_rows = 2, num_cols = 1, num_entries = 2,
                 row_indices = [0, 1], column_indices = [0, 0], vals = [1, 1] \<rparr>"

definition sample_R0 :: coo_matrix where
  "sample_R0 = \<lparr> num_rows = 1, num_cols = 2, num_entries = 2,
                 row_indices = [0, 0], column_indices = [0, 1], vals = [1, 1] \<rparr>"

definition sample_A1 :: coo_matrix where
  "sample_A1 = \<lparr> num_rows = 1, num_cols = 1, num_entries = 1,
                 row_indices = [0], column_indices = [0], vals = [2] \<rparr>"

definition sample_level0 :: "(real \<times> real list) level" where
  "sample_level0 =
     \<lparr> lvl_R = sample_R0, lvl_A = sample_A0, lvl_P = sample_P0,
       lvl_aggregates = [0, 0], lvl_B = [1, 1], lvl_x = [], lvl_b = [],
       lvl_residual = [0, 0], lvl_smoother = (2 / 3, [2, 2]),
       lvl_R_row_offsets = [0, 2], lvl_A_row_offsets = [0, 2, 4], lvl_P_row_offsets = [0, 1, 2],
       lvl_R_view = \<lparr> num_rows = 1, num_cols = 2, num_entries = 2,
                      view_row_offsets = [0, 2], view_column_indices = [0, 1],
                      view_values = [1, 1] \<rparr>,
       lvl_A_view = \<lparr> num_rows = 2, num_cols = 2, num_entries = 4,
                      view_row_offsets = [0, 2, 4], view_column_indices = [0, 1, 0, 1],
                      view_values = [2, - 1, - 1, 2] \<rparr>,
       lvl_P_view = \<lparr> num_rows = 2, num_cols = 1, num_entries = 2,
                      view_row_offsets = [0, 1, 2], view_column_indices = [0, 0],
                      view_values = [1, 1] \<rparr> \<rparr>"

definition sample_level1 :: "(real \<times> real list) level" where
  "sample_level1 =
     (new_level sample_ext) \<lparr> lvl_A := sample_A1, lvl_B := [sqrt 2], lvl_x := [0], lvl_b := [0] \<rparr>"

definition sample_hierarchy :: "(real \<times> real list, real list) smoothed_aggregation" where
  "sample_hierarchy = \<lparr> theta = 0, levels = [sample_level0, sample_level1], LU = [2] \<rparr>"


section \<open>Complexity metrics\<close>

text \<open>The two counters \<^verbatim>\<open>nnz\<close> and \<^verbatim>\<open>unknowns\<close> are of type \<^verbatim>\<open>IndexType\<close>. For the
  arithmetic of these counters \<^verbatim>\<open>IndexType\<close> is taken to be the 32-bit \<^verbatim>\<open>int\<close>, in two's
  complement: a sum is reduced to the range from \<open>- 2\<^sup>3\<^sup>1\<close> to \<open>2\<^sup>3\<^sup>1 - 1\<close>.\<close>

definition index_wrap :: "int \<Rightarrow> int" where
  "index_wrap v = (v + 2 ^ 31) mod 2 ^ 32 - 2 ^ 31"

text \<open>The two accumulation loops of \<^verbatim>\<open>operator_complexity\<close> and
  \<^verbatim>\<open>grid_complexity\<close>, index by index from \<open>0\<close>; each \<^verbatim>\<open>+=\<close> stores its sum in the
  counter.\<close>

fun sum_num_entries :: "'s level list \<Rightarrow> int \<Rightarrow> int" where
  "sum_num_entries [] nnz = nnz"
| "sum_num_entries (l # ls) nnz =
     sum_num_entries ls (index_wrap (nnz + int (num_entries (lvl_A l))))"

fun sum_num_rows :: "'s level list \<Rightarrow> int \<Rightarrow> int" where
  "sum_num_rows [] unknowns = unknowns"
| "sum_num_rows (l # ls) unknowns =
     sum_num_rows ls (index_wrap (unknowns + int (num_rows (lvl_A l))))"

text \<open>Both member functions read \<^verbatim>\<open>levels[0]\<close>, which every constructed object has;
  on an empty level list there is no result. The object is returned beside the value,
  as the member functions are not \<^verbatim>\<open>const\<close>.\<close>

definition operator_complexity ::
  "('s, 'lu) smoothed_aggregation \<Rightarrow> (real \<times> ('s, 'lu) smoothed_aggregation) option" where
  "operator_complexity h =
     (case levels h of
        [] \<Rightarrow> None
      | l0 # _ \<Rightarrow>
          Some (real_of_int (sum_num_entries (levels h) 0) / real (num_entries (lvl_A l0)), h))"

definition grid_complexity ::
  "('s, 'lu) smoothed_aggregation \<Rightarrow> (real \<times> ('s, 'lu) smoothed_aggregation) option" where
  "grid_complexity h =
     (case levels h of
        [] \<Rightarrow> None
      | l0 # _ \<Rightarrow>
          Some (real_of_int (sum_num_rows (levels h) 0) / real (num_rows (lvl_A l0)), h))"

section \<open>Auxiliary notions for the statements\<close>

text \<open>The keys and sums that \<^verbatim>\<open>reduce_by_key\<close> yields inside
  \<^const>\<open>fit_candidates\<close> when \<open>B\<close> has one element for each row, and the array \<open>R\<close>
  made of them.\<close>

definition fit_sums :: "int list \<Rightarrow> real list \<Rightarrow> (int \<times> real) list" where
  "fit_sums aggs Bv = reduce_by_key (map (\<lambda>e. (fst e, snd (snd e) * snd (snd e)))
       (sort_key fst (zip aggs (zip (map int [0..<length aggs]) Bv))))"

definition fit_R :: "int list \<Rightarrow> real list \<Rightarrow> real list" where
  "fit_R aggs Bv = map sqrt (map snd (fit_sums aggs Bv)
      @ replicate (nat (Max (set aggs) + 1) - length (fit_sums aggs Bv)) 0)"

text \<open>The norm of section 4.2 in the words of the specification: the square root of
  the sum, over the rows \<open>r\<close> with \<open>aggregates[r] = a\<close>, of \<open>B[r]\<^sup>2\<close>.\<close>

definition aggregate_norm :: "int list \<Rightarrow> real list \<Rightarrow> int \<Rightarrow> real" where
  "aggregate_norm aggs Bv a =
     sqrt (\<Sum>r\<leftarrow>[0..<length aggs]. if aggs ! r = a then Bv ! r * Bv ! r else 0)"

text \<open>The factor \<open>lambda\<close> of \<^const>\<open>smooth_prolongator\<close>: \<open>omega\<close> divided by the given
  spectral radius, or by the estimated one when the given one is \<open>0\<close>.\<close>

definition smooth_lambda :: "('s, 'lu) collaborators \<Rightarrow> coo_matrix \<Rightarrow> real \<Rightarrow> real \<Rightarrow> real" where
  "smooth_lambda ext S omega rho =
     omega / (if rho = 0 then estimate_rho_Dinv_A ext (Coo S) else rho)"

text \<open>The entries of the staging matrix \<^verbatim>\<open>temp\<close> before they are sorted: for entry
  \<open>e\<close> of \<open>S\<close>, at \<open>(i, j)\<close>, the entry at row \<open>i\<close> and the column of row \<open>j\<close> of \<open>T\<close> with
  the value \<open>S[e] * T[j] * (- lambda) / D[i]\<close>; then the entries of \<open>T\<close>.\<close>

definition smooth_temp :: "real \<Rightarrow> coo_matrix \<Rightarrow> coo_matrix \<Rightarrow> (int \<times> int \<times> real) list" where
  "smooth_temp lam S T =
     map (\<lambda>e. (row_indices S ! e,
               column_indices T ! nat (column_indices S ! e),
               vals S ! e * vals T ! nat (column_indices S ! e) * (- lam)
                 / extract_diagonal S ! nat (row_indices S ! e)))
         [0..<num_entries S]
     @ coo_entries T"

text \<open>Sorting by \<open>(row, col)\<close> and summing the values of equal keys.\<close>

definition reduced_entries :: "(int \<times> int \<times> real) list \<Rightarrow> ((int \<times> int) \<times> real) list" where
  "reduced_entries es =
     reduce_by_key (map (\<lambda>e. ((fst e, fst (snd e)), snd (snd e))) (sort_by_row_and_column es))"

text \<open>The inputs of \<^const>\<open>smooth_prolongator\<close> on which every access stays inside
  its array: both matrices have arrays of \<^verbatim>\<open>num_entries\<close> elements, \<open>T\<close> has as many
  entries as rows (the \<^verbatim>\<open>assert\<close>), there is at least one entry in all, the column
  indices of \<open>S\<close> are rows of \<open>T\<close> and the row indices of \<open>S\<close> are rows of \<open>S\<close>.\<close>

definition smooth_inputs_ok :: "coo_matrix \<Rightarrow> coo_matrix \<Rightarrow> bool" where
  "smooth_inputs_ok S T \<longleftrightarrow>
     coo_wf S \<and> coo_wf T \<and> num_entries T = num_rows T \<and> 0 < num_entries S + num_entries T \<and>
     (\<forall>c\<in>set (column_indices S). 0 \<le> c \<and> c < int (num_rows T)) \<and>
     (\<forall>r\<in>set (row_indices S). 0 \<le> r \<and> r < int (num_rows S))"

text \<open>The COO matrix of given size made of a list of keyed values.\<close>

definition coo_of_reduced :: "nat \<Rightarrow> nat \<Rightarrow> ((int \<times> int) \<times> real) list \<Rightarrow> coo_matrix" where
  "coo_of_reduced m n out =
     \<lparr> num_rows = m, num_cols = n, num_entries = length out,
       row_indices = map (\<lambda>e. fst (fst e)) out,
       column_indices = map (\<lambda>e. snd (fst e)) out,
       vals = map snd out \<rparr>"

text \<open>The parts of \<^const>\<open>extend_hierarchy\<close> by name: the aggregates and the spectral radius
  computed for a level, the level as the call leaves it, the level that is pushed, and
  the product \<open>R (A P)\<close> with \<open>R\<close> the transpose of \<open>P\<close>.\<close>

definition level_aggregates :: "('s, 'lu) collaborators \<Rightarrow> real \<Rightarrow> 's level \<Rightarrow> int list" where
  "level_aggregates ext th l =
     standard_aggregation ext (symmetric_strength_of_connection ext (lvl_A l) th)
       (replicate (num_rows (symmetric_strength_of_connection ext (lvl_A l) th)) 0)"

definition level_rho :: "('s, 'lu) collaborators \<Rightarrow> 's level \<Rightarrow> real" where
  "level_rho ext l = estimate_rho_Dinv_A ext (Csr_view (snd (setup_view (lvl_A l))))"

definition finished_level ::
  "('s, 'lu) collaborators \<Rightarrow> real \<Rightarrow> 's level \<Rightarrow> coo_matrix \<Rightarrow> 's level" where
  "finished_level ext th l P =
     l \<lparr> lvl_R := transpose_coo P, lvl_P := P,
         lvl_aggregates := level_aggregates ext th l,
         lvl_residual := resize (lvl_residual l) (num_rows (lvl_A l)) 0,
         lvl_smoother := jacobi ext (lvl_A l) ((4 / 3) / level_rho ext l),
         lvl_R_row_offsets := fst (setup_view (transpose_coo P)),
         lvl_A_row_offsets := fst (setup_view (lvl_A l)),
         lvl_P_row_offsets := fst (setup_view P),
         lvl_R_view := snd (setup_view (transpose_coo P)),
         lvl_A_view := snd (setup_view (lvl_A l)),
         lvl_P_view := snd (setup_view P) \<rparr>"

definition pushed_level ::
  "('s, 'lu) collaborators \<Rightarrow> coo_matrix \<Rightarrow> real list \<Rightarrow> 's level" where
  "pushed_level ext RAP B_coarse =
     (new_level ext) \<lparr> lvl_A := RAP, lvl_B := B_coarse,
        lvl_x := replicate (num_rows RAP) 0, lvl_b := replicate (num_rows RAP) 0 \<rparr>"

definition galerkin :: "('s, 'lu) collaborators \<Rightarrow> coo_matrix \<Rightarrow> coo_matrix \<Rightarrow> coo_matrix" where
  "galerkin ext A P = multiply_mm ext (transpose_coo P) (multiply_mm ext A P)"

text \<open>What \<^const>\<open>extend_hierarchy\<close> establishes between a level and the next one.\<close>

definition level_link :: "('s, 'lu) collaborators \<Rightarrow> real \<Rightarrow> 's level \<Rightarrow> 's level \<Rightarrow> bool" where
  "level_link ext th l l' \<longleftrightarrow>
     100 < num_rows (lvl_A l) \<and>
     lvl_aggregates l = level_aggregates ext th l \<and>
     (\<exists>T. fit_candidates (lvl_aggregates l) (lvl_B l) = Some (T, lvl_B l') \<and>
          smooth_prolongator ext (lvl_A l) T (4 / 3) (level_rho ext l) = Some (lvl_P l)) \<and>
     lvl_R l = transpose_coo (lvl_P l) \<and>
     lvl_A l' = galerkin ext (lvl_A l) (lvl_P l)"

text \<open>The level that the constructor pushes first.\<close>

definition first_level :: "('s, 'lu) collaborators \<Rightarrow> coo_matrix \<Rightarrow> 's level" where
  "first_level ext A0 = (new_level ext) \<lparr> lvl_A := A0, lvl_B := replicate (num_rows A0) 1 \<rparr>"

text \<open>A level on which a coarsening step stays inside its arrays: aggregation
  returns at least one id and no negative one, \<open>B\<close> is not longer than the aggregate
  array, the arrays of \<open>A\<close> have \<^verbatim>\<open>num_entries\<close> elements, its column indices are
  below the number of aggregate ids and its row indices below its number of rows.
  Nothing is asked of the values of \<open>A\<close>.\<close>

definition step_inputs_ok :: "('s, 'lu) collaborators \<Rightarrow> real \<Rightarrow> 's level \<Rightarrow> bool" where
  "step_inputs_ok ext th l \<longleftrightarrow>
     level_aggregates ext th l \<noteq> [] \<and>
     (\<forall>a\<in>set (level_aggregates ext th l). 0 \<le> a) \<and>
     length (lvl_B l) \<le> length (level_aggregates ext th l) \<and>
     coo_wf (lvl_A l) \<and>
     (\<forall>c\<in>set (column_indices (lvl_A l)). 0 \<le> c \<and> c < int (length (level_aggregates ext th l))) \<and>
     (\<forall>r\<in>set (row_indices (lvl_A l)). 0 \<le> r \<and> r < int (num_rows (lvl_A l)))"

text \<open>Every coarsening step taken from a level list that satisfies \<open>Inv\<close> and whose
  last operator has more than \<open>100\<close> rows returns, keeps \<open>Inv\<close> and ends with an
  operator of fewer rows.\<close>

definition coarsening_shrinks ::
  "('s, 'lu) collaborators \<Rightarrow> real \<Rightarrow> ('s level list \<Rightarrow> bool) \<Rightarrow> bool" where
  "coarsening_shrinks ext th Inv \<longleftrightarrow>
     (\<forall>ls. Inv ls \<and> ls \<noteq> [] \<and> 100 < num_rows (lvl_A (last ls)) \<longrightarrow>
        (\<exists>ls'. extend_hierarchy ext th ls = Some ls' \<and> Inv ls' \<and>
           num_rows (lvl_A (last ls')) < num_rows (lvl_A (last ls))))"

definition rows_decrease :: "'s level \<Rightarrow> 's level \<Rightarrow> bool" where
  "rows_decrease l l' \<longleftrightarrow> num_rows (lvl_A l') < num_rows (lvl_A l)"

text \<open>Two operators of \<open>101\<close> rows, for concrete inputs; the second has no entry on its
  diagonal.\<close>

definition sample_A101 :: coo_matrix where
  "sample_A101 = \<lparr> num_rows = 101, num_cols = 101, num_entries = 2,
                   row_indices = [0, 0], column_indices = [0, 1], vals = [2, - 1] \<rparr>"

definition zero_diagonal_A101 :: coo_matrix where
  "zero_diagonal_A101 = \<lparr> num_rows = 101, num_cols = 101, num_entries = 1,
                          row_indices = [0], column_indices = [1], vals = [1] \<rparr>"

text \<open>The hand-written hierarchy with other contents in its scratch arrays.\<close>

definition sample_hierarchy_used :: "(real \<times> real list, real list) smoothed_aggregation" where
  "sample_hierarchy_used =
     sample_hierarchy \<lparr> levels :=
       [sample_level0 \<lparr> lvl_residual := [7, 7] \<rparr>,
        sample_level1 \<lparr> lvl_x := [5], lvl_b := [9] \<rparr>] \<rparr>"

text \<open>The \<open>n \<times> n\<close> matrix with the values \<open>vs\<close> on its diagonal.\<close>

definition identity_pattern :: "nat \<Rightarrow> real list \<Rightarrow> coo_matrix" where
  "identity_pattern n vs = \<lparr> num_rows = n, num_cols = n, num_entries = n,
       row_indices = map int [0..<n], column_indices = map int [0..<n], vals = vs \<rparr>"

text \<open>An object of two levels whose operators record \<open>2\<^sup>3\<^sup>1 - 1\<close> and \<open>1\<close> stored entries,
  and as many rows.\<close>

definition large_hierarchy :: "(real \<times> real list, real list) smoothed_aggregation" where
  "large_hierarchy =
     \<lparr> theta = 0,
       levels = [(new_level sample_ext)
                   \<lparr> lvl_A := empty_coo \<lparr> num_rows := 2147483647, num_entries := 2147483647 \<rparr> \<rparr>,
                 (new_level sample_ext)
                   \<lparr> lvl_A := empty_coo \<lparr> num_rows := 1, num_entries := 1 \<rparr> \<rparr>],
       LU = [] \<rparr>"

text \<open>The collaborators of the concrete instance with a presmoother that performs the
  sweep of the postsmoother, from the content of \<open>x\<close> at the call; and the hand-written
  hierarchy with the weight \<open>1 / 2\<close> in the smoother of its first level.\<close>

definition sweep_ext :: "(real \<times> real list, real list) collaborators" where
  "sweep_ext = sample_ext \<lparr> presmooth := postsmooth sample_ext \<rparr>"

definition damped_hierarchy :: "(real \<times> real list, real list) smoothed_aggregation" where
  "damped_hierarchy =
     sample_hierarchy \<lparr> levels :=
       [sample_level0 \<lparr> lvl_smoother := (1 / 2, [2, 2]) \<rparr>, sample_level1] \<rparr>"




subsection \<open>The passes of the construction loop\<close>

text \<open>A product that has the rows of its left operand.\<close>

definition multiply_keeps_rows :: "('s, 'lu) collaborators \<Rightarrow> bool" where
  "multiply_keeps_rows ext \<longleftrightarrow> (\<forall>X Y. num_rows (multiply_mm ext X Y) = num_rows X)"

text \<open>The level list after \<open>k\<close> further passes through the loop of the constructor;
  there is none when the loop has ended before, or when a pass does not return.\<close>

fun extend_times ::
  "nat \<Rightarrow> ('s, 'lu) collaborators \<Rightarrow> real \<Rightarrow> 's level list \<Rightarrow> 's level list option" where
  "extend_times 0 ext th ls = Some ls"
| "extend_times (Suc k) ext th ls =
     (if ls \<noteq> [] \<and> 100 < num_rows (lvl_A (last ls))
      then Option.bind (extend_hierarchy ext th ls) (extend_times k ext th)
      else None)"

text \<open>At every level list that the loop reaches from the matrix \<open>A0\<close> and whose last
  operator has more than \<open>100\<close> rows, the coarsening step stays inside its arrays
  (\<^const>\<open>step_inputs_ok\<close>) and aggregation returns fewer aggregate ids than the operator has
  rows.\<close>

definition aggregation_reduces :: "('s, 'lu) collaborators \<Rightarrow> real \<Rightarrow> coo_matrix \<Rightarrow> bool" where
  "aggregation_reduces ext th A0 \<longleftrightarrow>
     (\<forall>k ls. extend_times k ext th [first_level ext A0] = Some ls
              \<and> 100 < num_rows (lvl_A (last ls)) \<longrightarrow>
        step_inputs_ok ext th (last ls) \<and>
        nat (Max (set (level_aggregates ext th (last ls))) + 1) < num_rows (lvl_A (last ls)))"

subsection \<open>Collaborators that follow the pattern of the matrix\<close>

text \<open>The matrix with an entry stored at every position, row by row.\<close>

definition dense_matrix :: "nat \<Rightarrow> nat \<Rightarrow> (nat \<Rightarrow> nat \<Rightarrow> real) \<Rightarrow> coo_matrix" where
  "dense_matrix n m f =
     \<lparr> num_rows = n, num_cols = m, num_entries = n * m,
       row_indices = map (\<lambda>p. int (fst p)) (List.product [0..<n] [0..<m]),
       column_indices = map (\<lambda>p. int (snd p)) (List.product [0..<n] [0..<m]),
       vals = map (\<lambda>p. f (fst p) (snd p)) (List.product [0..<n] [0..<m]) \<rparr>"

text \<open>Modelled from the spec: \<^verbatim>\<open>cusp::multiply\<close> for two matrices is not in the source
  file; the spec (section 2, step 7) uses it as the matrix product. This instance
  stores the product at every position.\<close>

definition dense_product :: "coo_matrix \<Rightarrow> coo_matrix \<Rightarrow> coo_matrix" where
  "dense_product X Y =
     dense_matrix (num_rows X) (num_cols Y)
       (\<lambda>i j. \<Sum>k\<leftarrow>[0..<num_cols X]. entry X (int i) (int k) * entry Y (int k) (int j))"

text \<open>The Laplacian of the complete graph on \<open>n\<close> vertices, times \<open>s\<close>: \<open>n - 1\<close> on the
  diagonal and \<open>- 1\<close> everywhere else. The graph is connected and no entry is zero.\<close>

definition complete_laplacian :: "nat \<Rightarrow> real \<Rightarrow> coo_matrix" where
  "complete_laplacian n s = dense_matrix n n (\<lambda>i j. s * (if i = j then real n - 1 else - 1))"

text \<open>Modelled from the spec: strength of connection is not in the source file; the
  spec (section 1) says that, given \<open>A\<close> and a threshold \<open>\<theta>\<close>, it produces a sparse graph \<open>C\<close>
  describing which off-diagonal entries are strong. This instance is the symmetric
  measure after which the library function is named: the entry at \<open>(i, j)\<close> is strong
  when \<open>|a\<^sub>i\<^sub>j|\<^sup>2 \<ge> \<theta>\<^sup>2 |a\<^sub>i\<^sub>i a\<^sub>j\<^sub>j|\<close>, and \<open>C\<close> keeps the diagonal and the strong entries.\<close>

definition symmetric_strength :: "coo_matrix \<Rightarrow> real \<Rightarrow> coo_matrix" where
  "symmetric_strength M th =
     (let es = filter (\<lambda>e. fst e = fst (snd e)
                         \<or> th * th * \<bar>entry M (fst e) (fst e) * entry M (fst (snd e)) (fst (snd e))\<bar>
                             \<le> snd (snd e) * snd (snd e))
                      (coo_entries M)
      in \<lparr> num_rows = num_rows M, num_cols = num_cols M, num_entries = length es,
           row_indices = map fst es,
           column_indices = map (\<lambda>e. fst (snd e)) es,
           vals = map (\<lambda>e. snd (snd e)) es \<rparr>)"

text \<open>Modelled from the spec: aggregation is not in the source file; the spec
  (section 1) says that, given \<open>C\<close>, it partitions the unknowns into aggregates and
  produces an aggregate id per row. This instance goes through the rows in order: a
  row without an id founds the next aggregate and takes with it the rows without an id
  that it is connected to in \<open>C\<close>. Every row receives an id and the ids are
  \<open>0, 1, \<dots>\<close> without a gap.\<close>

definition greedy_step :: "(int \<times> int) list \<Rightarrow> nat \<Rightarrow> int list \<times> int \<Rightarrow> int list \<times> int" where
  "greedy_step pat i st =
     (if fst st ! i = - 1
      then (map (\<lambda>j. if fst st ! j = - 1 \<and> (j = i \<or> (int i, int j) \<in> set pat)
                      then snd st else fst st ! j)
                [0..<length (fst st)],
            snd st + 1)
      else st)"

definition greedy_aggregation :: "coo_matrix \<Rightarrow> int list \<Rightarrow> int list" where
  "greedy_aggregation C init =
     fst (fold (greedy_step (zip (row_indices C) (column_indices C))) [0..<length init]
            (replicate (length init) (- 1), 0))"

text \<open>The collaborators of the concrete instance with these three functions, and the
  factor by which a coarsening step with one aggregate per row scales the Laplacian of
  the complete graph when the spectral radius is estimated as \<open>2\<close>.\<close>

definition dense_ext :: "(real \<times> real list, real list) collaborators" where
  "dense_ext =
     sample_ext \<lparr> symmetric_strength_of_connection := symmetric_strength,
                  standard_aggregation := greedy_aggregation,
                  multiply_mm := dense_product \<rparr>"

definition laplacian_factor :: "nat \<Rightarrow> real" where
  "laplacian_factor n =
     (1 - 2 / 3 * real n / (real n - 1)) * (1 - 2 / 3 * real n / (real n - 1))"

section \<open>Properties of the complexity metrics\<close>

lemma index_wrap_id: "- (2 ^ 31) \<le> v \<Longrightarrow> v < 2 ^ 31 \<Longrightarrow> index_wrap v = v"
  by (simp add: index_wrap_def)

lemma index_wrap_add: "index_wrap (index_wrap a + b) = index_wrap (a + b)"
proof -
  have "(index_wrap a + b + 2 ^ 31) mod 2 ^ 32 = ((a + 2 ^ 31) mod 2 ^ 32 + b) mod 2 ^ 32"
    by (simp add: index_wrap_def algebra_simps)
  also have "\<dots> = (a + 2 ^ 31 + b) mod 2 ^ 32" by (simp add: mod_add_left_eq)
  finally show ?thesis by (simp add: index_wrap_def algebra_simps)
qed

lemma sum_num_entries_acc:
  "sum_num_entries (l # ls) nnz
     = index_wrap (nnz + (\<Sum>l\<leftarrow>l # ls. int (num_entries (lvl_A l))))"
proof (induction ls arbitrary: l nnz)
  case Nil
  show ?case by simp
next
  case (Cons l' ls)
  have "sum_num_entries (l # l' # ls) nnz
      = sum_num_entries (l' # ls) (index_wrap (nnz + int (num_entries (lvl_A l))))"
    by simp
  also have "\<dots> = index_wrap (index_wrap (nnz + int (num_entries (lvl_A l)))
       + (\<Sum>l\<leftarrow>l' # ls. int (num_entries (lvl_A l))))"
    by (rule Cons.IH)
  finally show ?case by (simp only: index_wrap_add) (simp add: add.assoc)
qed

lemma sum_num_rows_acc:
  "sum_num_rows (l # ls) unknowns
     = index_wrap (unknowns + (\<Sum>l\<leftarrow>l # ls. int (num_rows (lvl_A l))))"
proof (induction ls arbitrary: l unknowns)
  case Nil
  show ?case by simp
next
  case (Cons l' ls)
  have "sum_num_rows (l # l' # ls) unknowns
      = sum_num_rows (l' # ls) (index_wrap (unknowns + int (num_rows (lvl_A l))))"
    by simp
  also have "\<dots> = index_wrap (index_wrap (unknowns + int (num_rows (lvl_A l)))
       + (\<Sum>l\<leftarrow>l' # ls. int (num_rows (lvl_A l))))"
    by (rule Cons.IH)
  finally show ?case by (simp only: index_wrap_add) (simp add: add.assoc)
qed

lemma ratio_ge_one:
  fixes n :: nat and rest :: int
  assumes "0 < n" "0 \<le> rest"
  shows "1 \<le> real_of_int (int n + rest) / real n"
  using assms by (simp add: le_divide_eq)

lemma sum_list_int_nonneg: "0 \<le> (\<Sum>l\<leftarrow>ls. int (f l))"
  by (induction ls) simp_all

text \<open>
  Claim C9, as amended. On every object with at least one level (every constructed
  one) both member functions return and leave the object as it was. When the sum of
  the nonzero counts of \<open>A\<close> over the levels is below \<open>2\<^sup>3\<^sup>1\<close>, \<open>operator_complexity\<close>
  returns that sum divided by the nonzero count of the level-0 \<open>A\<close>, and the value is at
  least \<open>1\<close> when the level-0 \<open>A\<close> stores at least one entry. When the sum of the row
  counts is below \<open>2\<^sup>3\<^sup>1\<close>, \<open>grid_complexity\<close> returns that sum divided by the level-0
  row count, and the value is at least \<open>1\<close> when the level-0 \<open>A\<close> has at least one row.
\<close>

theorem complexity_metrics:
  assumes "levels h = l0 # ls"
  shows "\<exists>oc gc. operator_complexity h = Some (oc, h) \<and> grid_complexity h = Some (gc, h)
         \<and> ((\<Sum>l\<leftarrow>levels h. int (num_entries (lvl_A l))) < 2 ^ 31 \<longrightarrow>
              oc = real_of_int (\<Sum>l\<leftarrow>levels h. int (num_entries (lvl_A l)))
                     / real (num_entries (lvl_A l0))
              \<and> (0 < num_entries (lvl_A l0) \<longrightarrow> 1 \<le> oc))
         \<and> ((\<Sum>l\<leftarrow>levels h. int (num_rows (lvl_A l))) < 2 ^ 31 \<longrightarrow>
              gc = real_of_int (\<Sum>l\<leftarrow>levels h. int (num_rows (lvl_A l)))
                     / real (num_rows (lvl_A l0))
              \<and> (0 < num_rows (lvl_A l0) \<longrightarrow> 1 \<le> gc))"
proof -
  let ?se = "\<Sum>l\<leftarrow>levels h. int (num_entries (lvl_A l))"
  let ?sr = "\<Sum>l\<leftarrow>levels h. int (num_rows (lvl_A l))"
  have oc: "operator_complexity h
      = Some (real_of_int (index_wrap ?se) / real (num_entries (lvl_A l0)), h)"
    using sum_num_entries_acc [of l0 ls 0] by (simp add: operator_complexity_def assms)
  have gc: "grid_complexity h
      = Some (real_of_int (index_wrap ?sr) / real (num_rows (lvl_A l0)), h)"
    using sum_num_rows_acc [of l0 ls 0] by (simp add: grid_complexity_def assms)
  have e0: "0 \<le> ?se" and r0: "0 \<le> ?sr" by (rule sum_list_int_nonneg)+
  have we: "index_wrap ?se = ?se" if "?se < 2 ^ 31"
    using that e0 by (intro index_wrap_id) simp_all
  have wr: "index_wrap ?sr = ?sr" if "?sr < 2 ^ 31"
    using that r0 by (intro index_wrap_id) simp_all
  have o1: "1 \<le> real_of_int ?se / real (num_entries (lvl_A l0))"
    if "0 < num_entries (lvl_A l0)"
    using ratio_ge_one [OF that sum_list_int_nonneg [of "\<lambda>l. num_entries (lvl_A l)" ls]]
    by (simp add: assms)
  have g1: "1 \<le> real_of_int ?sr / real (num_rows (lvl_A l0))" if "0 < num_rows (lvl_A l0)"
    using ratio_ge_one [OF that sum_list_int_nonneg [of "\<lambda>l. num_rows (lvl_A l)" ls]]
    by (simp add: assms)
  show ?thesis
    using oc gc we wr o1 g1 by (intro exI conjI) (assumption, assumption, simp_all)
qed

theorem complexity_metrics_witness:
  "levels sample_hierarchy = sample_level0 # [sample_level1]
   \<and> (\<Sum>l\<leftarrow>levels sample_hierarchy. int (num_entries (lvl_A l))) < 2 ^ 31
   \<and> (\<Sum>l\<leftarrow>levels sample_hierarchy. int (num_rows (lvl_A l))) < 2 ^ 31
   \<and> 0 < num_entries (lvl_A sample_level0) \<and> 0 < num_rows (lvl_A sample_level0)
   \<and> operator_complexity sample_hierarchy = Some (5 / 4, sample_hierarchy)
   \<and> grid_complexity sample_hierarchy = Some (3 / 2, sample_hierarchy)
   \<and> (1::real) \<le> 5 / 4 \<and> (1::real) \<le> 3 / 2"
proof -
  have l: "levels sample_hierarchy = sample_level0 # [sample_level1]"
    by (simp add: sample_hierarchy_def)
  have e: "num_entries (lvl_A sample_level0) = 4" "num_rows (lvl_A sample_level0) = 2"
    "num_entries (lvl_A sample_level1) = 1" "num_rows (lvl_A sample_level1) = 1"
    by (simp_all add: sample_level0_def sample_level1_def sample_A0_def sample_A1_def)
  show ?thesis
    using complexity_metrics [OF l] by (auto simp add: l e)
qed

text \<open>
  Claim C9 as stated fails in two ways. Where the level-0 count is zero the quotient is
  \<open>0 / 0\<close>: so it is for the operator complexity of the matrix with one row and no
  stored entry, and for the grid complexity of the matrix without rows; the program's
  quotient is then a NaN and the model's is \<open>0\<close>, and neither is at least \<open>1\<close>. Where the
  sum of the counts reaches \<open>2\<^sup>3\<^sup>1\<close> the counter wraps: with the counts \<open>2\<^sup>3\<^sup>1 - 1\<close> and \<open>1\<close>
  both values are \<open>- 2\<^sup>3\<^sup>1 / (2\<^sup>3\<^sup>1 - 1)\<close>.
\<close>

theorem complexity_below_one_counterexample:
  "map_option fst (Option.bind (build 0 sample_ext zero_1x1 0) operator_complexity) = Some 0
   \<and> map_option fst (Option.bind (build 0 sample_ext empty_coo 0) grid_complexity) = Some 0
   \<and> map_option fst (operator_complexity large_hierarchy) = Some (- 2147483648 / 2147483647)
   \<and> map_option fst (grid_complexity large_hierarchy) = Some (- 2147483648 / 2147483647)"
  by (simp add: build_def zero_1x1_def empty_coo_def operator_complexity_def grid_complexity_def
      large_hierarchy_def index_wrap_def)

section \<open>Keys and sums of \<open>reduce_by_key\<close>\<close>

lemma reduce_run_keys:
  "map fst (reduce_run k acc kvs) = remdups_adj (k # map fst kvs)"
  by (induction kvs arbitrary: k acc) auto

lemma reduce_by_key_keys:
  "map fst (reduce_by_key kvs) = remdups_adj (map fst kvs)"
  by (cases kvs) (auto simp: reduce_run_keys)

lemma reduce_run_sum:
  "sum_list (map snd (filter (\<lambda>kv. fst kv = x) (reduce_run k acc kvs)))
     = (if k = x then acc else 0) + sum_list (map snd (filter (\<lambda>kv. fst kv = x) kvs))"
  by (induction kvs arbitrary: k acc) auto

lemma reduce_by_key_sum:
  "sum_list (map snd (filter (\<lambda>kv. fst kv = x) (reduce_by_key kvs)))
     = sum_list (map snd (filter (\<lambda>kv. fst kv = x) kvs))"
  by (cases kvs) (auto simp: reduce_run_sum)

lemma sorted_remdups_adj:
  fixes ks :: "'k::linorder list"
  shows "sorted ks \<Longrightarrow> sorted (remdups_adj ks)"
  by (induction ks rule: remdups_adj.induct) auto

lemma distinct_remdups_adj_sorted:
  fixes ks :: "'k::linorder list"
  shows "sorted ks \<Longrightarrow> distinct (remdups_adj ks)"
  by (induction ks rule: remdups_adj.induct) (auto simp: order.strict_iff_order)

lemma reduce_by_key_distinct:
  fixes kvs :: "('k::linorder \<times> real) list"
  shows "sorted (map fst kvs) \<Longrightarrow> distinct (map fst (reduce_by_key kvs))"
  by (simp add: reduce_by_key_keys distinct_remdups_adj_sorted)

lemma count_changes_remdups_adj:
  "ks \<noteq> [] \<Longrightarrow> count_changes ks + 1 = int (length (remdups_adj ks))"
  by (induction ks rule: count_changes.induct) auto

lemma reduce_by_key_length:
  "kvs \<noteq> [] \<Longrightarrow> int (length (reduce_by_key kvs)) = count_changes (map fst kvs) + 1"
proof -
  assume "kvs \<noteq> []"
  then have "count_changes (map fst kvs) + 1 = int (length (remdups_adj (map fst kvs)))"
    by (simp add: count_changes_remdups_adj)
  also have "\<dots> = int (length (map fst (reduce_by_key kvs)))"
    by (simp only: reduce_by_key_keys)
  finally show ?thesis by simp
qed

lemma distinct_keys_filter:
  assumes "distinct (map fst kvs)" "i < length kvs"
  shows "filter (\<lambda>kv. fst kv = fst (kvs ! i)) kvs = [kvs ! i]"
  using assms
proof (induction kvs arbitrary: i)
  case Nil then show ?case by simp
next
  case (Cons a kvs)
  show ?case
  proof (cases i)
    case 0
    have "fst a \<notin> fst ` set kvs"
      using Cons.prems(1) by simp
    then have "\<forall>kv\<in>set kvs. fst kv \<noteq> fst a"
      by (metis imageI)
    then have "filter (\<lambda>kv. fst kv = fst a) kvs = []"
      by (simp add: filter_empty_conv)
    with 0 show ?thesis by simp
  next
    case (Suc j)
    then have j: "j < length kvs" using Cons.prems by simp
    have "fst (kvs ! j) \<noteq> fst a"
      using Cons.prems(1) j by (metis distinct.simps(2) list.simps(9) nth_map nth_mem length_map)
    with Suc Cons.IH [OF _ j] Cons.prems(1) show ?thesis by simp
  qed
qed

lemma max_element_Max: "aggs \<noteq> [] \<Longrightarrow> max_element aggs = Some (Max (set aggs))"
proof (cases aggs)
  case Nil
  assume "aggs \<noteq> []"
  with Nil show ?thesis by simp
next
  case (Cons a as)
  have "Max (set (a # as)) = fold max as a" by (rule Max.set_eq_fold)
  with Cons show ?thesis by simp
qed

lemma zip_map_same: "zip (map f xs) (map g xs) = map (\<lambda>x. (f x, g x)) xs"
  by (induction xs) simp_all

lemma fit_sums_keys:
  assumes "length Bv = length aggs"
  shows "sorted (map fst (fit_sums aggs Bv))" "distinct (map fst (fit_sums aggs Bv))"
    "set (map fst (fit_sums aggs Bv)) = set aggs"
proof -
  let ?es = "sort_key fst (zip aggs (zip (map int [0..<length aggs]) Bv))"
  have k: "map fst (fit_sums aggs Bv) = remdups_adj (map fst ?es)"
    by (simp add: fit_sums_def reduce_by_key_keys comp_def)
  have s: "sorted (map fst ?es)" by (rule sorted_sort_key)
  show "sorted (map fst (fit_sums aggs Bv))" using s by (simp add: k sorted_remdups_adj)
  show "distinct (map fst (fit_sums aggs Bv))" using s by (simp add: k distinct_remdups_adj_sorted)
  have "set (map fst ?es) = set (map fst (zip aggs (zip (map int [0..<length aggs]) Bv)))"
    by simp
  also have "\<dots> = set aggs" using assms by simp
  finally show "set (map fst (fit_sums aggs Bv)) = set aggs" by (simp add: k)
qed

lemma fit_sums_length:
  assumes "length Bv = length aggs" "aggs \<noteq> []" "\<forall>a\<in>set aggs. 0 \<le> a"
  shows "length (fit_sums aggs Bv) \<le> nat (Max (set aggs) + 1)"
proof -
  have "length (fit_sums aggs Bv) = length (map fst (fit_sums aggs Bv))" by simp
  also have "\<dots> = card (set (map fst (fit_sums aggs Bv)))"
    using fit_sums_keys(2) [OF assms(1)] by (simp only: distinct_card)
  also have "\<dots> = card (set aggs)" by (simp only: fit_sums_keys(3) [OF assms(1)])
  also have "\<dots> \<le> card {0..Max (set aggs)}"
    using assms(3) by (intro card_mono) auto
  also have "\<dots> = nat (Max (set aggs) + 1)" by simp
  finally show ?thesis .
qed

lemma fit_candidates_eq:
  assumes "aggs \<noteq> []" "\<forall>a\<in>set aggs. 0 \<le> a" "length Bv \<le> length aggs"
  defines "Bv' \<equiv> Bv @ replicate (length aggs - length Bv) 0"
  shows "fit_candidates aggs Bv =
     Some (\<lparr> num_rows = length aggs, num_cols = nat (Max (set aggs) + 1),
             num_entries = length aggs, row_indices = map int [0..<length aggs],
             column_indices = aggs,
             vals = map2 (\<lambda>v d. v / d) Bv' (map (\<lambda>a. fit_R aggs Bv' ! nat a) aggs) \<rparr>,
           fit_R aggs Bv')"
proof -
  have len: "length Bv' = length aggs" using assms(3) by (simp add: Bv'_def)
  have m0: "0 \<le> Max (set aggs) + 1"
    using assms(1,2) by (metis Max_in List.finite_set add_increasing2 set_empty zero_le_one)
  have sums: "reduce_by_key (zip (row_indices (transpose_coo \<lparr> num_rows = length aggs, num_cols = nat (Max (set aggs) + 1),
             num_entries = length aggs, row_indices = map int [0..<length aggs],
             column_indices = aggs, vals = Bv' \<rparr>)) (map (\<lambda>v. v * v) (vals (transpose_coo \<lparr> num_rows = length aggs, num_cols = nat (Max (set aggs) + 1),
             num_entries = length aggs, row_indices = map int [0..<length aggs],
             column_indices = aggs, vals = Bv' \<rparr>)))) = fit_sums aggs Bv'"
    by (simp add: transpose_coo_def fit_sums_def zip_map_same comp_def Let_def)
  have l: "length (fit_sums aggs Bv') \<le> nat (Max (set aggs) + 1)"
    by (rule fit_sums_length [OF len assms(1,2)])
  have lr: "length (fit_R aggs Bv') = nat (Max (set aggs) + 1)"
    using l by (simp add: fit_R_def)
  have g: "gather aggs (fit_R aggs Bv') = Some (map (\<lambda>a. fit_R aggs Bv' ! nat a) aggs)"
  proof -
    have "0 \<le> a \<and> nat a < nat (Max (set aggs) + 1)" if "a \<in> set aggs" for a
    proof -
      have "a \<le> Max (set aggs)" using that by simp
      moreover have "0 \<le> a" using that assms(2) by blast
      ultimately show ?thesis by linarith
    qed
    then show ?thesis by (simp add: gather_def lr list_all_iff)
  qed
  have r: "map (sqrt \<circ> snd) (fit_sums aggs Bv')
              @ replicate (nat (Max (set aggs) + 1) - length (fit_sums aggs Bv')) 0
           = fit_R aggs Bv'"
    by (simp add: fit_R_def)
  show ?thesis
    unfolding fit_candidates_def
    by (simp add: max_element_Max [OF assms(1)] assert_that_def m0 assms(3) Let_def
        sums l r g Bv'_def [symmetric])
qed

lemma zip_as_map_nth:
  "length xs = length ys \<Longrightarrow> zip xs ys = map (\<lambda>i. (xs ! i, ys ! i)) [0..<length xs]"
  by (rule nth_equalityI) simp_all

lemma filter_eq_upt: "r < n \<Longrightarrow> filter (\<lambda>i. i = r) [0..<n] = [r]"
proof (induction n)
  case 0 then show ?case by simp
next
  case (Suc n)
  show ?case
  proof (cases "r = n")
    case True
    have "filter (\<lambda>i. i = n) [0..<n] = []" by (simp add: filter_empty_conv)
    with True show ?thesis by simp
  next
    case False
    with Suc have "filter (\<lambda>i. i = r) [0..<n] = [r]" by simp
    with False show ?thesis by simp
  qed
qed

lemma filter_row_of_sequence:
  assumes "r < length ys"
  shows "filter (\<lambda>e. fst e = int r) (zip (map int [0..<length ys]) ys) = [(int r, ys ! r)]"
proof -
  have "zip (map int [0..<length ys]) ys = map (\<lambda>i. (int i, ys ! i)) [0..<length ys]"
    by (subst zip_as_map_nth) simp_all
  then have "filter (\<lambda>e. fst e = int r) (zip (map int [0..<length ys]) ys)
      = map (\<lambda>i. (int i, ys ! i)) (filter (\<lambda>i. i = r) [0..<length ys])"
    by (simp add: filter_map comp_def)
  with assms show ?thesis by (simp add: filter_eq_upt)
qed

lemma sum_filter_zip3:
  assumes "length ys = length xs" "length zs = length xs"
  shows "sum_list (map g (filter (\<lambda>e. fst e = a) (zip xs (zip ys zs))))
     = (\<Sum>r\<leftarrow>[0..<length xs]. if xs ! r = a then g (xs ! r, ys ! r, zs ! r) else 0)"
proof -
  have "zip xs (zip ys zs) = map (\<lambda>i. (xs ! i, ys ! i, zs ! i)) [0..<length xs]"
    using assms by (intro nth_equalityI) simp_all
  then show ?thesis
    by (simp add: sum_list_map_filter' comp_def)
qed

lemma fit_sums_all_ids:
  assumes "length Bv = length aggs" "aggs \<noteq> []" "set aggs = {0..Max (set aggs)}"
  shows "map fst (fit_sums aggs Bv) = [0..Max (set aggs)]"
  using fit_sums_keys [OF assms(1)] assms(3)
  by (intro sorted_distinct_set_unique) simp_all

lemma fit_sums_value:
  assumes "length Bv = length aggs" "i < length (fit_sums aggs Bv)"
  shows "snd (fit_sums aggs Bv ! i)
     = (\<Sum>r\<leftarrow>[0..<length aggs]. if aggs ! r = fst (fit_sums aggs Bv ! i) then Bv ! r * Bv ! r else 0)"
proof -
  let ?k = "fst (fit_sums aggs Bv ! i)"
  let ?z = "zip aggs (zip (map int [0..<length aggs]) Bv)"
  have "snd (fit_sums aggs Bv ! i)
      = sum_list (map snd (filter (\<lambda>kv. fst kv = ?k) (fit_sums aggs Bv)))"
    using distinct_keys_filter [OF fit_sums_keys(2) [OF assms(1)] assms(2)] by simp
  also have "\<dots> = sum_list (map snd (filter (\<lambda>kv. fst kv = ?k)
        (map (\<lambda>e. (fst e, snd (snd e) * snd (snd e))) (sort_key fst ?z))))"
    by (simp only: fit_sums_def reduce_by_key_sum)
  also have "\<dots> = sum_list (map (\<lambda>e. snd (snd e) * snd (snd e))
        (filter (\<lambda>e. fst e = ?k) (sort_key fst ?z)))"
    by (simp add: filter_map comp_def)
  also have "filter (\<lambda>e. fst e = ?k) (sort_key fst ?z) = filter (\<lambda>e. fst e = ?k) ?z"
    by (rule sort_key_stable)
  also have "sum_list (map (\<lambda>e. snd (snd e) * snd (snd e)) (filter (\<lambda>e. fst e = ?k) ?z))
      = (\<Sum>r\<leftarrow>[0..<length aggs]. if aggs ! r = ?k then Bv ! r * Bv ! r else 0)"
    using assms(1) by (subst sum_filter_zip3) (simp_all cong: if_cong)
  finally show ?thesis .
qed

lemma fit_R_all_ids:
  assumes "length Bv = length aggs" "aggs \<noteq> []" "set aggs = {0..Max (set aggs)}"
  shows "fit_R aggs Bv = map (\<lambda>a. aggregate_norm aggs Bv (int a)) [0..<nat (Max (set aggs) + 1)]"
proof -
  have keys: "map fst (fit_sums aggs Bv) = [0..Max (set aggs)]"
    by (rule fit_sums_all_ids [OF assms])
  have m0: "0 \<le> Max (set aggs)"
    using assms(2,3) by (metis Max_in List.finite_set atLeastAtMost_iff set_empty)
  have len: "length (fit_sums aggs Bv) = nat (Max (set aggs) + 1)"
    using arg_cong [OF keys, of length] by simp
  have key_i: "fst (fit_sums aggs Bv ! i) = int i" if "i < nat (Max (set aggs) + 1)" for i
  proof -
    have "fst (fit_sums aggs Bv ! i) = map fst (fit_sums aggs Bv) ! i"
      using that len by simp
    also have "\<dots> = [0..Max (set aggs)] ! i" by (simp only: keys)
    also have "\<dots> = int i" using that by (subst nth_upto) simp_all
    finally show ?thesis .
  qed
  have "fit_R aggs Bv = map sqrt (map snd (fit_sums aggs Bv))"
    by (simp add: fit_R_def len)
  also have "\<dots> = map (\<lambda>a. aggregate_norm aggs Bv (int a)) [0..<nat (Max (set aggs) + 1)]"
  proof (rule nth_equalityI)
    show "length (map sqrt (map snd (fit_sums aggs Bv)))
        = length (map (\<lambda>a. aggregate_norm aggs Bv (int a)) [0..<nat (Max (set aggs) + 1)])"
      by (simp add: len)
  next
    fix i assume "i < length (map sqrt (map snd (fit_sums aggs Bv)))"
    then have i: "i < nat (Max (set aggs) + 1)" by (simp add: len)
    then have i': "i < length (fit_sums aggs Bv)" by (simp add: len)
    show "map sqrt (map snd (fit_sums aggs Bv)) ! i
        = map (\<lambda>a. aggregate_norm aggs Bv (int a)) [0..<nat (Max (set aggs) + 1)] ! i"
      using i i' fit_sums_value [OF assms(1) i'] key_i [OF i]
      by (simp add: aggregate_norm_def)
  qed
  finally show ?thesis .
qed

lemma sum_list_if_mult:
  fixes f :: "'a \<Rightarrow> real"
  shows "(\<Sum>r\<leftarrow>xs. if P r then f r * c else 0) = (\<Sum>r\<leftarrow>xs. if P r then f r else 0) * c"
  by (induction xs) (simp_all add: algebra_simps)

lemma sum_list_if_nonneg:
  fixes f :: "'a \<Rightarrow> real"
  shows "0 \<le> (\<Sum>r\<leftarrow>xs. if P r then f r * f r else 0)"
  by (induction xs) simp_all

lemma fit_candidates_all_ids:
  assumes ne: "aggs \<noteq> []" and ids: "set aggs = {0..Max (set aggs)}"
    and len: "length Bv = length aggs"
  shows "fit_candidates aggs Bv =
     Some (\<lparr> num_rows = length aggs, num_cols = nat (Max (set aggs) + 1),
             num_entries = length aggs, row_indices = map int [0..<length aggs],
             column_indices = aggs,
             vals = map (\<lambda>r. Bv ! r / aggregate_norm aggs Bv (aggs ! r)) [0..<length aggs] \<rparr>,
           map (\<lambda>a. aggregate_norm aggs Bv (int a)) [0..<nat (Max (set aggs) + 1)])"
proof -
  have pos: "\<forall>a\<in>set aggs. 0 \<le> a" using ids by auto
  have R: "fit_R aggs Bv = map (\<lambda>a. aggregate_norm aggs Bv (int a)) [0..<nat (Max (set aggs) + 1)]"
    by (rule fit_R_all_ids [OF len ne ids])
  have at: "fit_R aggs Bv ! nat a = aggregate_norm aggs Bv a" if "a \<in> set aggs" for a
  proof -
    have "0 \<le> a" "a \<le> Max (set aggs)" using that ids by auto
    then show ?thesis by (simp add: R)
  qed
  have v: "map2 (\<lambda>v d. v / d) Bv (map (\<lambda>a. fit_R aggs Bv ! nat a) aggs)
      = map (\<lambda>r. Bv ! r / aggregate_norm aggs Bv (aggs ! r)) [0..<length aggs]"
    using len by (intro nth_equalityI) (simp_all add: at)
  have e: "fit_candidates aggs Bv =
     Some (\<lparr> num_rows = length aggs, num_cols = nat (Max (set aggs) + 1),
             num_entries = length aggs, row_indices = map int [0..<length aggs],
             column_indices = aggs,
             vals = map2 (\<lambda>v d. v / d) Bv (map (\<lambda>a. fit_R aggs Bv ! nat a) aggs) \<rparr>,
           fit_R aggs Bv)"
    using fit_candidates_eq [OF ne pos, of Bv] len by simp
  show ?thesis
    by (subst e, subst v, subst R) (rule refl)
qed

text \<open>
  Claim C3, as amended. For an aggregate assignment that is not empty and in which
  every id from \<open>0\<close> to the maximum appears, and a candidate vector \<open>B\<close> of the same
  length whose entries are not all zero on any aggregate, \<open>fit_candidates\<close> returns
  \<open>(T, B_coarse)\<close> where \<open>B_coarse[a]\<close> is the Euclidean norm of the entries of \<open>B\<close> on
  aggregate \<open>a\<close>, \<open>T\<close> has one entry for each row \<open>r\<close>, in column \<open>aggregates[r]\<close>,
  every column of \<open>T\<close> has norm \<open>1\<close>, and \<open>T \<cdot> B_coarse = B\<close>. Arithmetic is exact.
\<close>

theorem fit_candidates_reproduces:
  assumes ne: "aggs \<noteq> []" and ids: "set aggs = {0..Max (set aggs)}"
    and len: "length Bv = length aggs"
    and nz: "\<forall>a\<in>set aggs. aggregate_norm aggs Bv a \<noteq> 0"
  shows "\<exists>T Bc. fit_candidates aggs Bv = Some (T, Bc)
     \<and> num_rows T = length aggs \<and> num_cols T = nat (Max (set aggs) + 1)
     \<and> row_indices T = map int [0..<length aggs] \<and> column_indices T = aggs
     \<and> Bc = map (\<lambda>a. aggregate_norm aggs Bv (int a)) [0..<nat (Max (set aggs) + 1)]
     \<and> (\<forall>a\<in>set aggs. aggregate_norm aggs (vals T) a = 1)
     \<and> coo_spmv T Bc = Bv"
proof -
  let ?n = "length aggs"
  let ?T = "\<lparr> num_rows = ?n, num_cols = nat (Max (set aggs) + 1),
             num_entries = ?n, row_indices = map int [0..<?n],
             column_indices = aggs,
             vals = map (\<lambda>r. Bv ! r / aggregate_norm aggs Bv (aggs ! r)) [0..<?n] \<rparr>"
  let ?Bc = "map (\<lambda>a. aggregate_norm aggs Bv (int a)) [0..<nat (Max (set aggs) + 1)]"
  have fit: "fit_candidates aggs Bv = Some (?T, ?Bc)"
    by (rule fit_candidates_all_ids [OF ne ids len])
  have unit: "aggregate_norm aggs (vals ?T) a = 1" if a: "a \<in> set aggs" for a
  proof -
    let ?N = "aggregate_norm aggs Bv a"
    let ?S = "\<Sum>r\<leftarrow>[0..<?n]. if aggs ! r = a then Bv ! r * Bv ! r else 0"
    have N: "?N \<noteq> 0" using nz a by blast
    have S0: "0 \<le> ?S" by (rule sum_list_if_nonneg)
    have NN: "?N * ?N = ?S" using S0 by (simp add: aggregate_norm_def)
    have "(\<Sum>r\<leftarrow>[0..<?n]. if aggs ! r = a then vals ?T ! r * vals ?T ! r else 0)
        = (\<Sum>r\<leftarrow>[0..<?n]. if aggs ! r = a then (Bv ! r * Bv ! r) * (1 / (?N * ?N)) else 0)"
      by (rule arg_cong [where f = sum_list], rule map_cong) (simp_all add: field_simps)
    also have "\<dots> = ?S * (1 / (?N * ?N))" by (rule sum_list_if_mult)
    also have "\<dots> = 1" using N by (simp add: NN [symmetric])
    finally have "(\<Sum>r\<leftarrow>[0..<?n]. if aggs ! r = a then vals ?T ! r * vals ?T ! r else 0) = 1" .
    then show ?thesis
      unfolding aggregate_norm_def [of aggs "vals ?T" a] by (simp only: length_map real_sqrt_one)
  qed
  have prod: "coo_spmv ?T ?Bc = Bv"
  proof -
    have row: "(\<Sum>e\<leftarrow>filter (\<lambda>e. fst e = int i) (coo_entries ?T). snd (snd e) * ?Bc ! nat (fst (snd e)))
        = Bv ! i" if i: "i < ?n" for i
    proof -
      let ?ys = "zip aggs (vals ?T)"
      have ly: "length ?ys = ?n" by simp
      have "filter (\<lambda>e. fst e = int i) (zip (map int [0..<length ?ys]) ?ys) = [(int i, ?ys ! i)]"
        by (rule filter_row_of_sequence) (simp add: i)
      then have f: "filter (\<lambda>e. fst e = int i) (coo_entries ?T) = [(int i, ?ys ! i)]"
        by (simp add: coo_entries_def)
      have ai: "aggs ! i \<in> set aggs" using i by simp
      then have b: "0 \<le> aggs ! i" "aggs ! i \<le> Max (set aggs)" using ids by auto
      have N: "aggregate_norm aggs Bv (aggs ! i) \<noteq> 0" using nz ai by blast
      have idx: "?Bc ! nat (aggs ! i) = aggregate_norm aggs Bv (aggs ! i)"
        using b by simp
      show ?thesis using i N by (simp add: f idx)
    qed
    have "coo_spmv ?T ?Bc = map (\<lambda>i. Bv ! i) [0..<?n]"
      unfolding coo_spmv_def using row by (intro nth_equalityI) simp_all
    also have "\<dots> = Bv" using map_nth [of Bv] by (simp only: len)
    finally show ?thesis .
  qed
  from fit unit prod show ?thesis by (intro exI [of _ ?T] exI [of _ ?Bc]) simp
qed

theorem fit_candidates_reproduces_witness:
  "[0, 0, 1] \<noteq> ([]::int list) \<and> set [0, 0, 1::int] = {0..Max (set [0, 0, 1])}
   \<and> length [3, 4, 2::real] = length [0, 0, 1::int]
   \<and> aggregate_norm [0, 0, 1] [3, 4, 2] 0 = 5 \<and> aggregate_norm [0, 0, 1] [3, 4, 2] 1 = 2
   \<and> (\<exists>T Bc. fit_candidates [0, 0, 1] [3, 4, 2] = Some (T, Bc)
        \<and> Bc = [5, 2] \<and> coo_spmv T Bc = [3, 4, 2])"
proof -
  have n0: "aggregate_norm [0, 0, 1] [3, 4, 2] 0 = 5"
    by (simp add: aggregate_norm_def upt_rec_numeral real_sqrt_eq_iff [of _ 5, simplified])
  have n1: "aggregate_norm [0, 0, 1] [3, 4, 2] 1 = 2"
    by (simp add: aggregate_norm_def upt_rec_numeral real_sqrt_eq_iff [of _ 2, simplified])
  have m: "Max (set [0, 0, 1::int]) = 1" by simp
  have h1: "[0, 0, 1] \<noteq> ([]::int list)" by simp
  have h2: "set [0, 0, 1::int] = {0..Max (set [0, 0, 1])}" unfolding m by auto
  have h3: "length [3, 4, 2::real] = length [0, 0, 1::int]" by simp
  have h4: "\<forall>a\<in>set [0, 0, 1::int]. aggregate_norm [0, 0, 1] [3, 4, 2] a \<noteq> 0"
    by (simp add: n0 n1)
  from fit_candidates_reproduces [OF h1 h2 h3 h4]
  obtain T Bc where f: "fit_candidates [0, 0, 1] [3, 4, 2] = Some (T, Bc)"
    and b: "Bc = map (\<lambda>a. aggregate_norm [0, 0, 1] [3, 4, 2] (int a)) [0..<nat (Max (set [0, 0, 1]) + 1)]"
    and p: "coo_spmv T Bc = [3, 4, 2]"
    by blast
  have "Bc = [5, 2]" unfolding b m by (simp add: numeral_2_eq_2 n0 n1)
  with f p h1 h2 h3 n0 n1 show ?thesis by blast
qed

text \<open>
  Claim C3 as stated fails for an aggregate on which \<open>B\<close> is zero: its norm is \<open>0\<close> and
  the entries of its column are \<open>0 / 0\<close> (a NaN in the program, \<open>0\<close> in the model), so the
  column does not have norm \<open>1\<close>.
\<close>

theorem fit_candidates_zero_aggregate_counterexample:
  "map_option (vals \<circ> fst) (fit_candidates [0] [0]) = Some [0]
   \<and> aggregate_norm [0] [0] 0 = 0"
  by (simp add: fit_candidates_def assert_that_def transpose_coo_def gather_def Let_def
      aggregate_norm_def)

section \<open>The smoothed prolongator as a matrix\<close>

lemma length_extract_diagonal [simp]: "length (extract_diagonal M) = num_rows M"
  by (simp add: extract_diagonal_def)

lemma smooth_prolongator_eq:
  assumes ok: "smooth_inputs_ok S T"
  shows "smooth_prolongator ext S T omega rho =
     Some (coo_of_reduced (num_rows S) (num_cols T)
       (reduced_entries (smooth_temp (smooth_lambda ext S omega rho) S T)))"
proof -
  define out where "out = reduced_entries (smooth_temp (smooth_lambda ext S omega rho) S T)"
  let ?lam = "smooth_lambda ext S omega rho"
  let ?n = "num_entries S"
  have wS: "length (row_indices S) = ?n" "length (column_indices S) = ?n" "length (vals S) = ?n"
    and wT: "length (row_indices T) = num_rows T" "length (column_indices T) = num_rows T"
      "length (vals T) = num_rows T"
    and a: "num_entries T = num_rows T"
    and ne: "0 < ?n + num_entries T"
    and cs: "\<forall>c\<in>set (column_indices S). 0 \<le> c \<and> c < int (num_rows T)"
    and rs: "\<forall>r\<in>set (row_indices S). 0 \<le> r \<and> r < int (num_rows S)"
    using ok by (auto simp: smooth_inputs_ok_def coo_wf_def)
  have g1: "gather (column_indices S) (column_indices T)
      = Some (map (\<lambda>i. column_indices T ! nat i) (column_indices S))"
    using cs by (auto simp: gather_def list_all_iff wT)
  have g2: "gather (column_indices S) (vals T) = Some (map (\<lambda>i. vals T ! nat i) (column_indices S))"
    using cs by (auto simp: gather_def list_all_iff wT)
  have g3: "gather (row_indices S) (extract_diagonal S)
      = Some (map (\<lambda>i. extract_diagonal S ! nat i) (row_indices S))"
    using rs by (auto simp: gather_def list_all_iff)
  let ?c' = "map (\<lambda>i. column_indices T ! nat i) (column_indices S)"
  let ?v3 = "map2 (\<lambda>v di. v / di)
        (map (\<lambda>v. v * (- ?lam)) (map2 (\<lambda>s t. s * t) (vals S) (map (\<lambda>i. vals T ! nat i) (column_indices S))))
        (map (\<lambda>i. extract_diagonal S ! nat i) (row_indices S))"
  have temp: "zip (row_indices S @ row_indices T) (zip (?c' @ column_indices T) (?v3 @ vals T))
      = smooth_temp ?lam S T"
  proof -
    have "zip (row_indices S) (zip ?c' ?v3)
        = map (\<lambda>e. (row_indices S ! e,
               column_indices T ! nat (column_indices S ! e),
               vals S ! e * vals T ! nat (column_indices S ! e) * (- ?lam)
                 / extract_diagonal S ! nat (row_indices S ! e))) [0..<?n]"
      by (rule nth_equalityI) (simp_all add: wS)
    then show ?thesis
      by (simp add: smooth_temp_def coo_entries_def wS wT zip_append)
  qed
  have nonempty: "sort_by_row_and_column (smooth_temp ?lam S T) \<noteq> []"
  proof -
    have "length (smooth_temp ?lam S T) = ?n + num_entries T"
      by (simp add: smooth_temp_def coo_entries_def wT a)
    moreover have "length (sort_by_row_and_column (smooth_temp ?lam S T))
        = length (smooth_temp ?lam S T)"
      by (simp add: sort_by_row_and_column_def)
    ultimately show ?thesis using ne by auto
  qed
  let ?st = "sort_by_row_and_column (smooth_temp ?lam S T)"
  have z: "zip (map (\<lambda>e. (fst e, fst (snd e))) ?st) (map (\<lambda>e. snd (snd e)) ?st)
      = map (\<lambda>e. ((fst e, fst (snd e)), snd (snd e))) ?st"
    by (rule zip_map_same)
  have nnz: "nat (count_changes (map (\<lambda>e. (fst e, fst (snd e))) ?st) + 1) = length out"
  proof -
    have "int (length (reduce_by_key (map (\<lambda>e. ((fst e, fst (snd e)), snd (snd e))) ?st)))
        = count_changes (map fst (map (\<lambda>e. ((fst e, fst (snd e)), snd (snd e))) ?st)) + 1"
      using nonempty by (intro reduce_by_key_length) simp
    then show ?thesis by (simp add: out_def reduced_entries_def comp_def)
  qed
  have sl: "omega / (if rho = 0 then estimate_rho_Dinv_A ext (Coo S) else rho) = ?lam"
    by (simp add: smooth_lambda_def)
  have ro: "reduce_by_key (map (\<lambda>e. ((fst e, fst (snd e)), snd (snd e))) ?st) = out"
    by (simp add: out_def reduced_entries_def)
  show ?thesis
    unfolding smooth_prolongator_def Let_def
    by (simp only: assert_that_def a g1 g2 g3 if_True refl Option.bind.simps sl temp nonempty
        not_False_eq_True z nnz ro coo_of_reduced_def out_def [symmetric])
qed

lemma sum_filter_zip3_gen:
  assumes "length ys = length xs" "length zs = length xs"
  shows "sum_list (map g (filter Q (zip xs (zip ys zs))))
     = (\<Sum>r\<leftarrow>[0..<length xs]. if Q (xs ! r, ys ! r, zs ! r) then g (xs ! r, ys ! r, zs ! r) else 0)"
proof -
  have "zip xs (zip ys zs) = map (\<lambda>i. (xs ! i, ys ! i, zs ! i)) [0..<length xs]"
    using assms by (intro nth_equalityI) simp_all
  then show ?thesis
    by (simp add: sum_list_map_filter' comp_def)
qed

lemma entry_index_sum:
  assumes "coo_wf M"
  shows "entry M i j = (\<Sum>e\<leftarrow>[0..<num_entries M].
      if row_indices M ! e = i \<and> column_indices M ! e = j then vals M ! e else 0)"
  using assms unfolding entry_def coo_entries_def coo_wf_def
  by (subst sum_filter_zip3_gen) (simp_all cong: if_cong)

lemma entry_coo_of_reduced:
  "entry (coo_of_reduced m n out) i k
     = sum_list (map snd (filter (\<lambda>kv. fst kv = (i, k)) out))"
proof -
  have "coo_entries (coo_of_reduced m n out) = map (\<lambda>e. (fst (fst e), snd (fst e), snd e)) out"
    by (simp add: coo_entries_def coo_of_reduced_def zip_map_same)
  then show ?thesis
    by (simp add: entry_def filter_map comp_def prod_eq_iff)
qed

lemma reduced_entries_sum:
  "sum_list (map snd (filter (\<lambda>kv. fst kv = (i, k)) (reduced_entries es)))
     = sum_list (map (\<lambda>e. snd (snd e)) (filter (\<lambda>e. fst e = i \<and> fst (snd e) = k) es))"
proof -
  let ?key = "\<lambda>e::int \<times> int \<times> real. (fst e, fst (snd e))"
  have "sum_list (map snd (filter (\<lambda>kv. fst kv = (i, k)) (reduced_entries es)))
      = sum_list (map snd (filter (\<lambda>kv. fst kv = (i, k))
          (map (\<lambda>e. (?key e, snd (snd e))) (sort_key ?key es))))"
    by (simp only: reduced_entries_def reduce_by_key_sum sort_by_row_and_column_def)
  also have "\<dots> = sum_list (map (\<lambda>e. snd (snd e)) (filter (\<lambda>e. ?key e = (i, k)) (sort_key ?key es)))"
    by (simp add: filter_map comp_def)
  also have "filter (\<lambda>e. ?key e = (i, k)) (sort_key ?key es) = filter (\<lambda>e. ?key e = (i, k)) es"
    by (rule sort_key_stable)
  finally show ?thesis by simp
qed

lemma reduced_entries_keys:
  "sorted (map fst (reduced_entries es))" "distinct (map fst (reduced_entries es))"
proof -
  let ?key = "\<lambda>e::int \<times> int \<times> real. (fst e, fst (snd e))"
  have k: "map fst (reduced_entries es) = remdups_adj (map ?key (sort_key ?key es))"
    by (simp add: reduced_entries_def reduce_by_key_keys sort_by_row_and_column_def comp_def)
  have s: "sorted (map ?key (sort_key ?key es))" by (rule sorted_sort_key)
  show "sorted (map fst (reduced_entries es))" using s by (simp add: k sorted_remdups_adj)
  show "distinct (map fst (reduced_entries es))"
    using s by (simp add: k distinct_remdups_adj_sorted)
qed

lemma sum_list_upt_delta:
  fixes g :: "nat \<Rightarrow> real"
  assumes "c < n"
  shows "(\<Sum>j\<leftarrow>[0..<n]. if j = c then g j else 0) = g c"
proof -
  have "(\<Sum>j\<leftarrow>[0..<n]. if j = c then g j else 0) = (\<Sum>j\<in>{0..<n}. if j = c then g j else 0)"
    by (simp add: interv_sum_list_conv_sum_set_nat)
  also have "\<dots> = g c" using assms by (simp add: sum.delta)
  finally show ?thesis .
qed

lemma sum_list_upt_swap:
  fixes f :: "nat \<Rightarrow> nat \<Rightarrow> real"
  shows "(\<Sum>j\<leftarrow>[0..<n]. \<Sum>e\<leftarrow>[0..<m]. f j e) = (\<Sum>e\<leftarrow>[0..<m]. \<Sum>j\<leftarrow>[0..<n]. f j e)"
  by (simp add: interv_sum_list_conv_sum_set_nat sum.swap [of _ "{0..<m}"])

lemma sum_list_upt_cong:
  fixes f g :: "nat \<Rightarrow> real"
  assumes "\<And>j. j < n \<Longrightarrow> f j = g j"
  shows "(\<Sum>j\<leftarrow>[0..<n]. f j) = (\<Sum>j\<leftarrow>[0..<n]. g j)"
  by (rule arg_cong [where f = sum_list], rule map_cong) (simp_all add: assms)

lemma sum_list_mult_right:
  fixes f :: "'a \<Rightarrow> real"
  shows "(\<Sum>e\<leftarrow>xs. f e) * c = (\<Sum>e\<leftarrow>xs. f e * c)"
  by (induction xs) (simp_all add: algebra_simps)

lemma entry_one_per_row:
  assumes wf: "coo_wf T" and a: "num_entries T = num_rows T"
    and seq: "row_indices T = map int [0..<num_rows T]" and j: "j < num_rows T"
  shows "entry T (int j) k = (if column_indices T ! j = k then vals T ! j else 0)"
proof -
  let ?ys = "zip (column_indices T) (vals T)"
  have ly: "length ?ys = num_rows T" using wf a by (simp add: coo_wf_def)
  have "filter (\<lambda>e. fst e = int j) (zip (map int [0..<length ?ys]) ?ys) = [(int j, ?ys ! j)]"
    by (rule filter_row_of_sequence) (simp only: ly j)
  then have f: "filter (\<lambda>e. fst e = int j) (coo_entries T) = [(int j, ?ys ! j)]"
    by (simp only: ly coo_entries_def seq)
  have "filter (\<lambda>e. fst e = int j \<and> fst (snd e) = k) (coo_entries T)
      = filter (\<lambda>e. fst (snd e) = k) (filter (\<lambda>e. fst e = int j) (coo_entries T))"
    by (simp add: conj_commute)
  then show ?thesis
    using j ly wf a by (simp add: entry_def f coo_wf_def)
qed

lemma smooth_product_sum:
  assumes ok: "smooth_inputs_ok S T" and seq: "row_indices T = map int [0..<num_rows T]"
  shows "(\<Sum>j\<leftarrow>[0..<num_rows T]. entry S i (int j) * entry T (int j) k)
     = (\<Sum>e\<leftarrow>[0..<num_entries S].
          if row_indices S ! e = i \<and> column_indices T ! nat (column_indices S ! e) = k
          then vals S ! e * vals T ! nat (column_indices S ! e) else 0)"
proof -
  let ?n = "num_entries S" and ?m = "num_rows T"
  have wS: "coo_wf S" and wT: "coo_wf T" and a: "num_entries T = ?m"
    and cs: "\<forall>c\<in>set (column_indices S). 0 \<le> c \<and> c < int ?m"
    using ok by (auto simp: smooth_inputs_ok_def)
  have lc: "length (column_indices S) = ?n" using wS by (simp add: coo_wf_def)
  have "(\<Sum>j\<leftarrow>[0..<?m]. entry S i (int j) * entry T (int j) k)
      = (\<Sum>j\<leftarrow>[0..<?m]. \<Sum>e\<leftarrow>[0..<?n].
           if j = nat (column_indices S ! e)
           then (if row_indices S ! e = i \<and> column_indices T ! j = k
                 then vals S ! e * vals T ! j else 0)
           else 0)"
  proof (rule sum_list_upt_cong)
    fix j assume j: "j < ?m"
    have "entry S i (int j) * entry T (int j) k
        = (\<Sum>e\<leftarrow>[0..<?n]. if row_indices S ! e = i \<and> column_indices S ! e = int j
              then vals S ! e else 0) * (if column_indices T ! j = k then vals T ! j else 0)"
      by (simp only: entry_index_sum [OF wS] entry_one_per_row [OF wT a seq j])
    also have "\<dots> = (\<Sum>e\<leftarrow>[0..<?n]. (if row_indices S ! e = i \<and> column_indices S ! e = int j
              then vals S ! e else 0) * (if column_indices T ! j = k then vals T ! j else 0))"
      by (rule sum_list_mult_right)
    also have "\<dots> = (\<Sum>e\<leftarrow>[0..<?n].
           if j = nat (column_indices S ! e)
           then (if row_indices S ! e = i \<and> column_indices T ! j = k
                 then vals S ! e * vals T ! j else 0)
           else 0)"
    proof (rule sum_list_upt_cong)
      fix e assume e: "e < ?n"
      then have "column_indices S ! e \<in> set (column_indices S)" by (simp add: lc)
      then have "0 \<le> column_indices S ! e" using cs by blast
      then have "(column_indices S ! e = int j) = (j = nat (column_indices S ! e))" by auto
      then show "(if row_indices S ! e = i \<and> column_indices S ! e = int j
              then vals S ! e else 0) * (if column_indices T ! j = k then vals T ! j else 0)
          = (if j = nat (column_indices S ! e)
           then (if row_indices S ! e = i \<and> column_indices T ! j = k
                 then vals S ! e * vals T ! j else 0)
           else 0)"
        by simp
    qed
    finally show "entry S i (int j) * entry T (int j) k = (\<Sum>e\<leftarrow>[0..<?n].
           if j = nat (column_indices S ! e)
           then (if row_indices S ! e = i \<and> column_indices T ! j = k
                 then vals S ! e * vals T ! j else 0)
           else 0)" .
  qed
  also have "\<dots> = (\<Sum>e\<leftarrow>[0..<?n]. \<Sum>j\<leftarrow>[0..<?m].
           if j = nat (column_indices S ! e)
           then (if row_indices S ! e = i \<and> column_indices T ! j = k
                 then vals S ! e * vals T ! j else 0)
           else 0)"
    by (rule sum_list_upt_swap)
  also have "\<dots> = (\<Sum>e\<leftarrow>[0..<?n].
          if row_indices S ! e = i \<and> column_indices T ! nat (column_indices S ! e) = k
          then vals S ! e * vals T ! nat (column_indices S ! e) else 0)"
  proof (rule sum_list_upt_cong)
    fix e assume e: "e < ?n"
    then have "column_indices S ! e \<in> set (column_indices S)" by (simp add: lc)
    then have "nat (column_indices S ! e) < ?m" using cs by auto
    then show "(\<Sum>j\<leftarrow>[0..<?m].
           if j = nat (column_indices S ! e)
           then (if row_indices S ! e = i \<and> column_indices T ! j = k
                 then vals S ! e * vals T ! j else 0)
           else 0) = (if row_indices S ! e = i \<and> column_indices T ! nat (column_indices S ! e) = k
          then vals S ! e * vals T ! nat (column_indices S ! e) else 0)"
      by (rule sum_list_upt_delta)
  qed
  finally show ?thesis .
qed

lemma smooth_temp_sum:
  assumes ok: "smooth_inputs_ok S T"
  shows "sum_list (map (\<lambda>e. snd (snd e)) (filter (\<lambda>e. fst e = i \<and> fst (snd e) = k) (smooth_temp lam S T)))
     = entry T i k - lam * (\<Sum>e\<leftarrow>[0..<num_entries S].
          if row_indices S ! e = i \<and> column_indices T ! nat (column_indices S ! e) = k
          then vals S ! e * vals T ! nat (column_indices S ! e) else 0)
        / extract_diagonal S ! nat i"
proof -
  let ?n = "num_entries S"
  let ?f = "\<lambda>e. (row_indices S ! e,
               column_indices T ! nat (column_indices S ! e),
               vals S ! e * vals T ! nat (column_indices S ! e) * (- lam)
                 / extract_diagonal S ! nat (row_indices S ! e))"
  have "sum_list (map (\<lambda>e. snd (snd e)) (filter (\<lambda>e. fst e = i \<and> fst (snd e) = k) (map ?f [0..<?n])))
      = (\<Sum>e\<leftarrow>[0..<?n]. if row_indices S ! e = i \<and> column_indices T ! nat (column_indices S ! e) = k
           then vals S ! e * vals T ! nat (column_indices S ! e) * (- lam)
                 / extract_diagonal S ! nat (row_indices S ! e) else 0)"
    by (simp add: filter_map comp_def sum_list_map_filter' cong: if_cong)
  also have "\<dots> = (\<Sum>e\<leftarrow>[0..<?n]. (if row_indices S ! e = i \<and> column_indices T ! nat (column_indices S ! e) = k
           then vals S ! e * vals T ! nat (column_indices S ! e) else 0) * (- lam / extract_diagonal S ! nat i))"
    by (rule sum_list_upt_cong) simp
  also have "\<dots> = (\<Sum>e\<leftarrow>[0..<?n]. if row_indices S ! e = i \<and> column_indices T ! nat (column_indices S ! e) = k
           then vals S ! e * vals T ! nat (column_indices S ! e) else 0) * (- lam / extract_diagonal S ! nat i)"
    by (rule sum_list_mult_right [symmetric])
  finally have Spart: "sum_list (map (\<lambda>e. snd (snd e)) (filter (\<lambda>e. fst e = i \<and> fst (snd e) = k) (map ?f [0..<?n])))
      = (\<Sum>e\<leftarrow>[0..<?n]. if row_indices S ! e = i \<and> column_indices T ! nat (column_indices S ! e) = k
           then vals S ! e * vals T ! nat (column_indices S ! e) else 0) * (- lam / extract_diagonal S ! nat i)" .
  show ?thesis
    unfolding smooth_temp_def filter_append map_append sum_list_append Spart
    by (simp add: entry_def)
qed

text \<open>
  Claim C2, as amended. For every sparse matrix \<open>A\<close> (here \<open>S\<close>) with nonzero diagonal
  and every tentative prolongator \<open>T\<close> with exactly one entry for each row, stored in
  row order, whose rows are the columns of \<open>A\<close>, \<open>smooth_prolongator(A, T, omega, rho)\<close>
  returns \<open>P = (I - (omega / rho') D\<^sup>-\<^sup>1 A) T\<close>, where \<open>D\<close> is the diagonal of \<open>A\<close> and
  \<open>rho'\<close> is \<open>rho\<close> when \<open>rho \<noteq> 0\<close> and the estimate of the spectral radius of
  \<open>D\<^sup>-\<^sup>1 A\<close> when \<open>rho = 0\<close>. The entries of \<open>P\<close> are sorted by \<open>(row, col)\<close> and \<open>P\<close> has
  at most one entry for each \<open>(row, col)\<close>. Arithmetic is exact.
\<close>

theorem smooth_prolongator_formula:
  assumes ok: "smooth_inputs_ok S T" and seq: "row_indices T = map int [0..<num_rows T]"
    and diag: "\<forall>d\<in>set (extract_diagonal S). d \<noteq> 0"
  shows "\<exists>P. smooth_prolongator ext S T omega rho = Some P
     \<and> coo_wf P \<and> num_rows P = num_rows S \<and> num_cols P = num_cols T
     \<and> sorted (zip (row_indices P) (column_indices P))
     \<and> distinct (zip (row_indices P) (column_indices P))
     \<and> (\<forall>i k. 0 \<le> i \<longrightarrow> i < int (num_rows S) \<longrightarrow>
          entry P i k =
            entry T i k
            - (omega / (if rho = 0 then estimate_rho_Dinv_A ext (Coo S) else rho))
              * (\<Sum>j\<leftarrow>[0..<num_rows T]. entry S i (int j) * entry T (int j) k)
              / extract_diagonal S ! nat i)"
proof -
  let ?lam = "smooth_lambda ext S omega rho"
  let ?out = "reduced_entries (smooth_temp ?lam S T)"
  let ?P = "coo_of_reduced (num_rows S) (num_cols T) ?out"
  have P: "smooth_prolongator ext S T omega rho = Some ?P"
    by (rule smooth_prolongator_eq [OF ok])
  have z: "zip (row_indices ?P) (column_indices ?P) = map fst ?out"
    by (simp add: coo_of_reduced_def zip_map_same)
  have e: "entry ?P i k = entry T i k
            - ?lam * (\<Sum>j\<leftarrow>[0..<num_rows T]. entry S i (int j) * entry T (int j) k)
              / extract_diagonal S ! nat i" for i k
    by (simp only: entry_coo_of_reduced reduced_entries_sum smooth_temp_sum [OF ok]
        smooth_product_sum [OF ok seq])
  have wfP: "coo_wf ?P" by (simp add: coo_of_reduced_def coo_wf_def)
  have dims: "num_rows ?P = num_rows S" "num_cols ?P = num_cols T"
    by (simp_all add: coo_of_reduced_def)
  have so: "sorted (zip (row_indices ?P) (column_indices ?P))"
    using reduced_entries_keys(1) [of "smooth_temp ?lam S T"] by (simp only: z)
  have di: "distinct (zip (row_indices ?P) (column_indices ?P))"
    using reduced_entries_keys(2) [of "smooth_temp ?lam S T"] by (simp only: z)
  have fo: "\<forall>i k. 0 \<le> i \<longrightarrow> i < int (num_rows S) \<longrightarrow>
          entry ?P i k =
            entry T i k
            - (omega / (if rho = 0 then estimate_rho_Dinv_A ext (Coo S) else rho))
              * (\<Sum>j\<leftarrow>[0..<num_rows T]. entry S i (int j) * entry T (int j) k)
              / extract_diagonal S ! nat i"
    using e by (simp add: smooth_lambda_def)
  from P wfP dims so di fo show ?thesis by blast
qed

lemma sample_smooth_ok: "smooth_inputs_ok sample_A0 sample_P0"
  by (simp add: smooth_inputs_ok_def coo_wf_def sample_A0_def sample_P0_def)

lemma sample_seq: "row_indices sample_P0 = map int [0..<num_rows sample_P0]"
  by (simp add: sample_P0_def numeral_2_eq_2)

lemma sample_diag: "extract_diagonal sample_A0 = [2, 2]"
  by (simp add: extract_diagonal_def sample_A0_def coo_entries_def numeral_2_eq_2)

lemma sample_entries:
  "entry sample_A0 0 0 = 2" "entry sample_A0 0 1 = - 1" "entry sample_A0 1 0 = - 1"
  "entry sample_A0 1 1 = 2" "entry sample_P0 0 0 = 1" "entry sample_P0 1 0 = 1"
  by (simp_all add: entry_def coo_entries_def sample_A0_def sample_P0_def)

theorem smooth_prolongator_formula_witness:
  "smooth_inputs_ok sample_A0 sample_P0
   \<and> row_indices sample_P0 = map int [0..<num_rows sample_P0]
   \<and> extract_diagonal sample_A0 = [2, 2]
   \<and> (\<exists>P. smooth_prolongator sample_ext sample_A0 sample_P0 (4 / 3) 2 = Some P
        \<and> entry P 0 0 = 2 / 3 \<and> entry P 1 0 = 2 / 3)"
proof -
  have d: "\<forall>d\<in>set (extract_diagonal sample_A0). d \<noteq> 0" by (simp add: sample_diag)
  from smooth_prolongator_formula [OF sample_smooth_ok sample_seq d, of sample_ext "4 / 3" 2]
  obtain P where P: "smooth_prolongator sample_ext sample_A0 sample_P0 (4 / 3) 2 = Some P"
    and f: "\<forall>i k. 0 \<le> i \<longrightarrow> i < int (num_rows sample_A0) \<longrightarrow>
          entry P i k =
            entry sample_P0 i k
            - (4 / 3 / (if (2::real) = 0 then estimate_rho_Dinv_A sample_ext (Coo sample_A0) else 2))
              * (\<Sum>j\<leftarrow>[0..<num_rows sample_P0]. entry sample_A0 i (int j) * entry sample_P0 (int j) k)
              / extract_diagonal sample_A0 ! nat i"
    by blast
  have r: "num_rows sample_A0 = 2" "num_rows sample_P0 = 2"
    by (simp_all add: sample_A0_def sample_P0_def)
  have "entry P 0 0 = 2 / 3"
    using f [rule_format, of 0 0] by (simp add: r sample_entries sample_diag numeral_2_eq_2)
  moreover have "entry P 1 0 = 2 / 3"
    using f [rule_format, of 1 0] by (simp add: r sample_entries sample_diag numeral_2_eq_2)
  ultimately show ?thesis using P sample_smooth_ok sample_seq sample_diag by blast
qed

lemma sample_rho: "estimate_rho_Dinv_A sample_ext (Coo sample_A0) = 2"
  by (simp add: estimate_rho_Dinv_A_def sample_ext_def)

lemma sample_temp:
  "reduced_entries (smooth_temp (2 / 3) sample_A0 sample_P0) = [((0, 0), 2 / 3), ((1, 0), 2 / 3)]"
  unfolding smooth_temp_def sample_diag
  by (simp add: reduced_entries_def sort_by_row_and_column_def sample_A0_def
      sample_P0_def coo_entries_def eval_nat_numeral)

text \<open>
  Claim C2 as stated fails at \<open>rho = 0\<close>: the program does not divide \<open>omega\<close> by \<open>rho\<close>
  but by the estimated spectral radius (here \<open>2\<close>), so the result is the one of
  \<open>rho = 2\<close>, with the values \<open>2/3\<close>, where the formula of the claim with \<open>omega / 0\<close>
  read as \<open>0\<close> gives \<open>1\<close> (and no real number read for \<open>omega / 0\<close> but \<open>2/3\<close> gives
  \<open>2/3\<close>).
\<close>

theorem smooth_prolongator_zero_rho_counterexample:
  "map_option vals (smooth_prolongator sample_ext sample_A0 sample_P0 (4 / 3) 0) = Some [2 / 3, 2 / 3]
   \<and> map_option vals (smooth_prolongator sample_ext sample_A0 sample_P0 (4 / 3) 2) = Some [2 / 3, 2 / 3]
   \<and> entry sample_P0 0 0
       - (4 / 3) / 0 * (entry sample_A0 0 0 * entry sample_P0 0 0 + entry sample_A0 0 1 * entry sample_P0 1 0)
         / extract_diagonal sample_A0 ! 0 = 1"
  by (simp add: smooth_prolongator_eq [OF sample_smooth_ok] smooth_lambda_def sample_rho
      sample_temp coo_of_reduced_def sample_entries sample_diag)

section \<open>The hierarchy that the constructor builds\<close>

lemma extend_hierarchy_eq:
  "extend_hierarchy ext th ls =
     (if ls = [] then None
      else case fit_candidates (level_aggregates ext th (last ls)) (lvl_B (last ls)) of
             None \<Rightarrow> None
           | Some (T, B_coarse) \<Rightarrow>
               (case smooth_prolongator ext (lvl_A (last ls)) T (4 / 3) (level_rho ext (last ls)) of
                  None \<Rightarrow> None
                | Some P \<Rightarrow>
                    Some (butlast ls @
                      [finished_level ext th (last ls) P,
                       pushed_level ext (galerkin ext (lvl_A (last ls)) P) B_coarse])))"
  by (auto simp: extend_hierarchy_def assert_that_def Let_def level_aggregates_def level_rho_def
      finished_level_def pushed_level_def galerkin_def resize_def
      split: option.splits prod.splits)

lemma coarsen_stop:
  "\<not> (ls \<noteq> [] \<and> 100 < num_rows (lvl_A (last ls))) \<Longrightarrow> coarsen fuel ext th ls = Some ls"
  by auto

lemma coarsen_0: "ls \<noteq> [] \<Longrightarrow> 100 < num_rows (lvl_A (last ls)) \<Longrightarrow> coarsen 0 ext th ls = None"
  by simp

lemma coarsen_Suc:
  "ls \<noteq> [] \<Longrightarrow> 100 < num_rows (lvl_A (last ls)) \<Longrightarrow>
   coarsen (Suc fuel) ext th ls = Option.bind (extend_hierarchy ext th ls) (coarsen fuel ext th)"
  by simp

lemma finished_level_fields [simp]:
  "lvl_A (finished_level ext th l P) = lvl_A l"
  "lvl_B (finished_level ext th l P) = lvl_B l"
  "lvl_P (finished_level ext th l P) = P"
  "lvl_R (finished_level ext th l P) = transpose_coo P"
  "lvl_aggregates (finished_level ext th l P) = level_aggregates ext th l"
  "lvl_A_view (finished_level ext th l P) = snd (setup_view (lvl_A l))"
  by (simp_all add: finished_level_def)

lemma pushed_level_fields [simp]:
  "lvl_A (pushed_level ext RAP Bc) = RAP"
  "lvl_B (pushed_level ext RAP Bc) = Bc"
  by (simp_all add: pushed_level_def)

lemma level_aggregates_cong: "lvl_A l = lvl_A l' \<Longrightarrow> level_aggregates ext th l = level_aggregates ext th l'"
  by (simp add: level_aggregates_def)

lemma level_rho_cong: "lvl_A l = lvl_A l' \<Longrightarrow> level_rho ext l = level_rho ext l'"
  by (simp add: level_rho_def)

lemma level_link_second:
  "level_link ext th l l' \<Longrightarrow> lvl_A l'' = lvl_A l' \<Longrightarrow> lvl_B l'' = lvl_B l' \<Longrightarrow> level_link ext th l l''"
  unfolding level_link_def by metis

lemma extend_hierarchy_link:
  assumes e: "extend_hierarchy ext th ls = Some ls'"
    and big: "100 < num_rows (lvl_A (last ls))"
    and inv: "successively (level_link ext th) ls"
  shows "successively (level_link ext th) ls'"
    and "ls' \<noteq> []" and "length ls' = Suc (length ls)"
    and "lvl_A (hd ls') = lvl_A (hd ls)" and "lvl_B (hd ls') = lvl_B (hd ls)"
proof -
  from e have ne: "ls \<noteq> []" by (auto simp: extend_hierarchy_eq split: if_splits)
  from e ne obtain T Bc P where
    fit: "fit_candidates (level_aggregates ext th (last ls)) (lvl_B (last ls)) = Some (T, Bc)"
    and sm: "smooth_prolongator ext (lvl_A (last ls)) T (4 / 3) (level_rho ext (last ls)) = Some P"
    and ls': "ls' = butlast ls @ [finished_level ext th (last ls) P,
                       pushed_level ext (galerkin ext (lvl_A (last ls)) P) Bc]"
    by (auto simp: extend_hierarchy_eq split: option.splits prod.splits)
  let ?fl = "finished_level ext th (last ls) P"
  let ?pl = "pushed_level ext (galerkin ext (lvl_A (last ls)) P) Bc"
  have ag: "level_aggregates ext th ?fl = level_aggregates ext th (last ls)"
    by (rule level_aggregates_cong) simp
  have rh: "level_rho ext ?fl = level_rho ext (last ls)"
    by (rule level_rho_cong) simp
  have new: "level_link ext th ?fl ?pl"
    using big fit sm by (simp add: level_link_def ag rh)
  have split: "ls = butlast ls @ [last ls]" using ne by simp
  have old: "successively (level_link ext th) (butlast ls)"
    and old2: "butlast ls = [] \<or> level_link ext th (last (butlast ls)) (last ls)"
    using inv by (subst (asm) split, simp add: successively_append_iff)+
  have old3: "butlast ls = [] \<or> level_link ext th (last (butlast ls)) ?fl"
    using old2 by (auto intro: level_link_second)
  show "successively (level_link ext th) ls'"
    using old old3 new by (simp add: ls' successively_append_iff)
  show "ls' \<noteq> []" by (simp add: ls')
  show "length ls' = Suc (length ls)" using ne by (simp add: ls')
  show "lvl_A (hd ls') = lvl_A (hd ls)"
    using ne by (cases "butlast ls") (simp_all add: ls' hd_append, metis split append_Nil list.sel(1), metis split  hd_append2 list.sel(1) list.distinct(1))
  show "lvl_B (hd ls') = lvl_B (hd ls)"
    using ne by (cases "butlast ls") (simp_all add: ls' hd_append, metis split append_Nil list.sel(1), metis split  hd_append2 list.sel(1) list.distinct(1))
qed

lemma coarsen_invariant:
  assumes "coarsen fuel ext th ls = Some ls'" "ls \<noteq> []" "successively (level_link ext th) ls"
  shows "successively (level_link ext th) ls' \<and> ls' \<noteq> []
       \<and> num_rows (lvl_A (last ls')) \<le> 100
       \<and> lvl_A (hd ls') = lvl_A (hd ls) \<and> lvl_B (hd ls') = lvl_B (hd ls)"
  using assms
proof (induction fuel arbitrary: ls)
  case 0
  then show ?case by (auto split: if_splits)
next
  case (Suc fuel)
  show ?case
  proof (cases "100 < num_rows (lvl_A (last ls))")
    case False
    with Suc.prems show ?thesis by auto
  next
    case True
    with Suc.prems obtain mid where
      e: "extend_hierarchy ext th ls = Some mid" and c: "coarsen fuel ext th mid = Some ls'"
      by (auto simp: coarsen_Suc split: Option.bind_splits)
    note step = extend_hierarchy_link [OF e True Suc.prems(3)]
    from Suc.IH [OF c step(2) step(1)] step(4,5) show ?thesis by simp
  qed
qed

lemma build_levels:
  assumes "build fuel ext A0 th = Some h"
  shows "coarsen fuel ext th [first_level ext A0] = Some (levels h)"
    and "LU h = lu_solver ext (lvl_A (last (levels h)))" and "theta h = th"
  using assms by (auto simp: build_def first_level_def resize_def Let_def split: Option.bind_splits)

lemma build_invariant:
  assumes "build fuel ext A0 th = Some h"
  shows "successively (level_link ext th) (levels h)" "levels h \<noteq> []"
    "num_rows (lvl_A (last (levels h))) \<le> 100"
    "lvl_A (levels h ! 0) = A0" "lvl_B (levels h ! 0) = replicate (num_rows A0) 1"
proof -
  have c: "coarsen fuel ext th [first_level ext A0] = Some (levels h)"
    by (rule build_levels(1) [OF assms])
  have i: "successively (level_link ext th) (levels h) \<and> levels h \<noteq> []
       \<and> num_rows (lvl_A (last (levels h))) \<le> 100
       \<and> lvl_A (hd (levels h)) = lvl_A (hd [first_level ext A0])
       \<and> lvl_B (hd (levels h)) = lvl_B (hd [first_level ext A0])"
    by (rule coarsen_invariant [OF c]) simp_all
  then show "successively (level_link ext th) (levels h)" "levels h \<noteq> []"
    "num_rows (lvl_A (last (levels h))) \<le> 100" by simp_all
  from i have "hd (levels h) = levels h ! 0" by (simp add: hd_conv_nth)
  with i show "lvl_A (levels h ! 0) = A0" "lvl_B (levels h ! 0) = replicate (num_rows A0) 1"
    by (simp_all add: first_level_def)
qed

lemma build_link:
  assumes "build fuel ext A0 th = Some h" "i + 1 < length (levels h)"
  shows "level_link ext th (levels h ! i) (levels h ! (i + 1))"
  using build_invariant(1) [OF assms(1)] assms(2) by (simp add: successively_conv_nth)

lemma sum_list_insort_key:
  fixes g :: "'a \<Rightarrow> real"
  shows "sum_list (map g (insort_key f x xs)) = g x + sum_list (map g xs)"
  by (induction xs) simp_all

lemma sum_list_sort_key:
  fixes g :: "'a \<Rightarrow> real"
  shows "sum_list (map g (sort_key f xs)) = sum_list (map g xs)"
  by (induction xs) (simp_all add: sum_list_insort_key)

lemma zip3_map_same:
  "zip (map fst es) (zip (map (\<lambda>e. fst (snd e)) es) (map (\<lambda>e. snd (snd e)) es)) = es"
  by (induction es) simp_all

lemma entry_transpose_coo:
  assumes "coo_wf M"
  shows "entry (transpose_coo M) r c = entry M c r"
proof -
  let ?Z = "zip (column_indices M) (zip (row_indices M) (vals M))"
  have l: "length (row_indices M) = length (column_indices M)"
    "length (vals M) = length (column_indices M)" "length (column_indices M) = num_entries M"
    using assms by (simp_all add: coo_wf_def)
  have "coo_entries (transpose_coo M) = sort_key fst ?Z"
    by (simp add: coo_entries_def transpose_coo_def Let_def zip3_map_same)
  then have "entry (transpose_coo M) r c
      = sum_list (map (\<lambda>e. snd (snd e)) (filter (\<lambda>e. fst e = r \<and> fst (snd e) = c) (sort_key fst ?Z)))"
    by (simp add: entry_def)
  also have "\<dots> = sum_list (map (\<lambda>e. snd (snd e)) (sort_key fst (filter (\<lambda>e. fst e = r \<and> fst (snd e) = c) ?Z)))"
    by (simp only: filter_sort)
  also have "\<dots> = sum_list (map (\<lambda>e. snd (snd e)) (filter (\<lambda>e. fst e = r \<and> fst (snd e) = c) ?Z))"
    by (rule sum_list_sort_key)
  also have "\<dots> = (\<Sum>e\<leftarrow>[0..<num_entries M].
      if column_indices M ! e = r \<and> row_indices M ! e = c then vals M ! e else 0)"
    using l by (subst sum_filter_zip3_gen) (simp_all cong: if_cong)
  also have "\<dots> = entry M c r"
    by (simp add: entry_index_sum [OF assms] conj_commute cong: if_cong)
  finally show ?thesis .
qed

lemma smooth_prolongator_wf:
  assumes "smooth_prolongator ext S T omega rho = Some P"
  shows "coo_wf P" "num_rows P = num_rows S" "num_cols P = num_cols T"
proof -
  from assms obtain es where ne: "es \<noteq> []"
    and P: "P = \<lparr> num_rows = num_rows S, num_cols = num_cols T,
         num_entries = nat (count_changes (map (\<lambda>e. (fst e, fst (snd e))) es) + 1),
         row_indices = map (\<lambda>e. fst (fst e)) (reduce_by_key (zip (map (\<lambda>e. (fst e, fst (snd e))) es) (map (\<lambda>e. snd (snd e)) es))),
         column_indices = map (\<lambda>e. snd (fst e)) (reduce_by_key (zip (map (\<lambda>e. (fst e, fst (snd e))) es) (map (\<lambda>e. snd (snd e)) es))),
         vals = map snd (reduce_by_key (zip (map (\<lambda>e. (fst e, fst (snd e))) es) (map (\<lambda>e. snd (snd e)) es))) \<rparr>"
    unfolding smooth_prolongator_def Let_def assert_that_def
    by (auto split: Option.bind_splits if_splits)
  let ?kv = "zip (map (\<lambda>e. (fst e, fst (snd e))) es) (map (\<lambda>e. snd (snd e)) es)"
  have "?kv \<noteq> []" using ne by (cases es) simp_all
  then have "int (length (reduce_by_key ?kv)) = count_changes (map fst ?kv) + 1"
    by (rule reduce_by_key_length)
  then have "nat (count_changes (map (\<lambda>e. (fst e, fst (snd e))) es) + 1) = length (reduce_by_key ?kv)"
    by simp
  then show "coo_wf P" by (simp add: P coo_wf_def)
  show "num_rows P = num_rows S" "num_cols P = num_cols T" by (simp_all add: P)
qed

text \<open>
  Claim C1. In every hierarchy that the constructor returns and at every level \<open>i\<close>
  before the last one, the stored restriction is the transpose of the stored
  prolongation, entry by entry, and the operator of level \<open>i + 1\<close> is the product
  \<open>R\<^sub>i (A\<^sub>i P\<^sub>i)\<close> as \<^verbatim>\<open>cusp::multiply\<close> returns it.
\<close>

theorem galerkin_chain:
  assumes "build fuel ext A0 th = Some h" "i + 1 < length (levels h)"
  shows "lvl_R (levels h ! i) = transpose_coo (lvl_P (levels h ! i))
     \<and> (\<forall>r c. entry (lvl_R (levels h ! i)) r c = entry (lvl_P (levels h ! i)) c r)
     \<and> lvl_A (levels h ! (i + 1))
         = multiply_mm ext (lvl_R (levels h ! i))
             (multiply_mm ext (lvl_A (levels h ! i)) (lvl_P (levels h ! i)))"
proof -
  have k: "level_link ext th (levels h ! i) (levels h ! (i + 1))"
    by (rule build_link [OF assms])
  then obtain T where
    "smooth_prolongator ext (lvl_A (levels h ! i)) T (4 / 3) (level_rho ext (levels h ! i))
       = Some (lvl_P (levels h ! i))"
    by (auto simp: level_link_def)
  then have wf: "coo_wf (lvl_P (levels h ! i))" by (rule smooth_prolongator_wf)
  from k have R: "lvl_R (levels h ! i) = transpose_coo (lvl_P (levels h ! i))"
    and A: "lvl_A (levels h ! (i + 1)) = galerkin ext (lvl_A (levels h ! i)) (lvl_P (levels h ! i))"
    by (simp_all add: level_link_def)
  show ?thesis
    using R A by (simp add: galerkin_def entry_transpose_coo [OF wf])
qed





lemma extend_hierarchy_succeeds:
  assumes ne: "ls \<noteq> []" and ok: "step_inputs_ok ext th (last ls)"
  shows "\<exists>T Bc P. extend_hierarchy ext th ls =
       Some (butlast ls @ [finished_level ext th (last ls) P,
                           pushed_level ext (galerkin ext (lvl_A (last ls)) P) Bc])
     \<and> fit_candidates (level_aggregates ext th (last ls)) (lvl_B (last ls)) = Some (T, Bc)
     \<and> smooth_prolongator ext (lvl_A (last ls)) T (4 / 3) (level_rho ext (last ls)) = Some P
     \<and> num_cols P = nat (Max (set (level_aggregates ext th (last ls))) + 1)"
proof -
  let ?l = "last ls"
  let ?aggs = "level_aggregates ext th ?l"
  let ?n = "length ?aggs"
  let ?Bv = "lvl_B ?l @ replicate (?n - length (lvl_B ?l)) 0"
  let ?T = "\<lparr> num_rows = ?n, num_cols = nat (Max (set ?aggs) + 1),
             num_entries = ?n, row_indices = map int [0..<?n],
             column_indices = ?aggs,
             vals = map2 (\<lambda>v d. v / d) ?Bv (map (\<lambda>a. fit_R ?aggs ?Bv ! nat a) ?aggs) \<rparr>"
  from ok have a: "?aggs \<noteq> []" "\<forall>a\<in>set ?aggs. 0 \<le> a" "length (lvl_B ?l) \<le> ?n"
    and wA: "coo_wf (lvl_A ?l)"
    and cs: "\<forall>c\<in>set (column_indices (lvl_A ?l)). 0 \<le> c \<and> c < int ?n"
    and rs: "\<forall>r\<in>set (row_indices (lvl_A ?l)). 0 \<le> r \<and> r < int (num_rows (lvl_A ?l))"
    by (simp_all add: step_inputs_ok_def)
  have fit: "fit_candidates ?aggs (lvl_B ?l) = Some (?T, fit_R ?aggs ?Bv)"
    by (rule fit_candidates_eq [OF a])
  have lB: "length ?Bv = ?n" using a(3) by simp
  have wT: "coo_wf ?T" by (simp add: coo_wf_def lB del: length_append length_replicate)
  have n0: "0 < ?n" using a(1) by simp
  have sok: "smooth_inputs_ok (lvl_A ?l) ?T"
    using wA wT cs rs n0 by (simp add: smooth_inputs_ok_def)
  have sm: "smooth_prolongator ext (lvl_A ?l) ?T (4 / 3) (level_rho ext ?l)
      = Some (coo_of_reduced (num_rows (lvl_A ?l)) (num_cols ?T)
           (reduced_entries (smooth_temp (smooth_lambda ext (lvl_A ?l) (4 / 3) (level_rho ext ?l)) (lvl_A ?l) ?T)))"
    by (rule smooth_prolongator_eq [OF sok])
  show ?thesis
    using ne fit sm by (simp add: extend_hierarchy_eq coo_of_reduced_def)
qed

lemma coarsen_mono:
  "coarsen fuel ext th ls = Some ls' \<Longrightarrow> fuel \<le> fuel' \<Longrightarrow> coarsen fuel' ext th ls = Some ls'"
proof (induction fuel arbitrary: fuel' ls)
  case 0
  then show ?case by (auto split: if_splits)
next
  case (Suc fuel)
  show ?case
  proof (cases "ls \<noteq> [] \<and> 100 < num_rows (lvl_A (last ls))")
    case False
    with Suc.prems show ?thesis by (auto simp del: coarsen.simps simp: coarsen_stop)
  next
    case True
    from Suc.prems(2) obtain k where k: "fuel' = Suc k" "fuel \<le> k" by (cases fuel') auto
    from True Suc.prems(1) obtain mid where
      e: "extend_hierarchy ext th ls = Some mid" and c: "coarsen fuel ext th mid = Some ls'"
      by (auto simp: coarsen_Suc split: Option.bind_splits)
    from Suc.IH [OF c k(2)] e True show ?thesis by (simp add: k(1))
  qed
qed

lemma coarsen_terminates:
  assumes sh: "coarsening_shrinks ext th Inv"
  shows "Inv ls \<Longrightarrow> ls \<noteq> [] \<Longrightarrow> num_rows (lvl_A (last ls)) - 100 \<le> n \<Longrightarrow>
         \<exists>ls'. coarsen n ext th ls = Some ls'"
proof (induction n arbitrary: ls)
  case 0
  then have "\<not> (ls \<noteq> [] \<and> 100 < num_rows (lvl_A (last ls)))" by simp
  then show ?case by (metis coarsen_stop)
next
  case (Suc n)
  show ?case
  proof (cases "100 < num_rows (lvl_A (last ls))")
    case False
    then have "\<not> (ls \<noteq> [] \<and> 100 < num_rows (lvl_A (last ls)))" by simp
    then show ?thesis by (metis coarsen_stop)
  next
    case True
    with sh Suc.prems obtain mid where
      e: "extend_hierarchy ext th ls = Some mid" and i: "Inv mid"
      and d: "num_rows (lvl_A (last mid)) < num_rows (lvl_A (last ls))"
      unfolding coarsening_shrinks_def by blast
    from e have m: "mid \<noteq> []" by (auto simp: extend_hierarchy_eq split: if_splits option.splits)
    have "num_rows (lvl_A (last mid)) - 100 \<le> n" using d Suc.prems(3) by linarith
    from Suc.IH [OF i m this] obtain ls' where "coarsen n ext th mid = Some ls'" by blast
    with e True Suc.prems(2) show ?thesis by (simp add: coarsen_Suc del: coarsen.simps)
  qed
qed

lemma extend_hierarchy_rows:
  assumes e: "extend_hierarchy ext th ls = Some ls'"
    and d: "num_rows (lvl_A (last ls')) < num_rows (lvl_A (last ls))"
    and inv: "successively rows_decrease ls"
  shows "successively rows_decrease ls'"
proof -
  from e have ne: "ls \<noteq> []" by (auto simp: extend_hierarchy_eq split: if_splits)
  from e ne obtain Bc P where
    ls': "ls' = butlast ls @ [finished_level ext th (last ls) P,
                       pushed_level ext (galerkin ext (lvl_A (last ls)) P) Bc]"
    by (auto simp: extend_hierarchy_eq split: option.splits prod.splits)
  let ?fl = "finished_level ext th (last ls) P"
  let ?pl = "pushed_level ext (galerkin ext (lvl_A (last ls)) P) Bc"
  have new: "rows_decrease ?fl ?pl" using d by (simp add: ls' rows_decrease_def)
  have split: "ls = butlast ls @ [last ls]" using ne by simp
  have old: "successively rows_decrease (butlast ls)"
    and old2: "butlast ls = [] \<or> rows_decrease (last (butlast ls)) (last ls)"
    using inv by (subst (asm) split, simp add: successively_append_iff)+
  have old3: "butlast ls = [] \<or> rows_decrease (last (butlast ls)) ?fl"
    using old2 by (simp add: rows_decrease_def)
  show ?thesis using old old3 new by (simp add: ls' successively_append_iff)
qed

lemma coarsen_rows_decrease:
  assumes sh: "coarsening_shrinks ext th Inv"
  shows "coarsen fuel ext th ls = Some ls' \<Longrightarrow> Inv ls \<Longrightarrow> successively rows_decrease ls \<Longrightarrow>
         successively rows_decrease ls'"
proof (induction fuel arbitrary: ls)
  case 0
  then show ?case by (auto split: if_splits)
next
  case (Suc fuel)
  show ?case
  proof (cases "ls \<noteq> [] \<and> 100 < num_rows (lvl_A (last ls))")
    case False
    with Suc.prems show ?thesis by (auto simp del: coarsen.simps simp: coarsen_stop)
  next
    case True
    from True Suc.prems(1) obtain mid where
      e: "extend_hierarchy ext th ls = Some mid" and c: "coarsen fuel ext th mid = Some ls'"
      by (auto simp: coarsen_Suc split: Option.bind_splits)
    from sh Suc.prems(2) True e have i: "Inv mid"
      and d: "num_rows (lvl_A (last mid)) < num_rows (lvl_A (last ls))"
      unfolding coarsening_shrinks_def by auto
    from Suc.IH [OF c i extend_hierarchy_rows [OF e d Suc.prems(3)]] show ?thesis .
  qed
qed

lemma fit_candidates_cols:
  assumes "fit_candidates aggs Bv = Some (T, Bc)"
  shows "num_cols T = nat (Max (set aggs) + 1)"
proof -
  from assms have ne: "aggs \<noteq> []"
    by (cases aggs) (simp_all add: fit_candidates_def)
  from assms show ?thesis
    by (auto simp: fit_candidates_def max_element_Max [OF ne] Let_def assert_that_def
        split: Option.bind_splits if_splits)
qed

lemma level_link_rows:
  assumes "level_link ext th l l'" "multiply_keeps_rows ext"
  shows "num_rows (lvl_A l') = nat (Max (set (lvl_aggregates l)) + 1)"
proof -
  from assms(1) obtain T where
    f: "fit_candidates (lvl_aggregates l) (lvl_B l) = Some (T, lvl_B l')"
    and s: "smooth_prolongator ext (lvl_A l) T (4 / 3) (level_rho ext l) = Some (lvl_P l)"
    and A: "lvl_A l' = galerkin ext (lvl_A l) (lvl_P l)"
    by (auto simp: level_link_def)
  have "num_rows (lvl_A l') = num_rows (transpose_coo (lvl_P l))"
    using assms(2) by (simp add: A galerkin_def multiply_keeps_rows_def)
  also have "\<dots> = num_cols (lvl_P l)" by (simp add: transpose_coo_def Let_def)
  also have "\<dots> = num_cols T" by (rule smooth_prolongator_wf(3) [OF s])
  also have "\<dots> = nat (Max (set (lvl_aggregates l)) + 1)" by (rule fit_candidates_cols [OF f])
  finally show ?thesis .
qed

lemma extend_times_end:
  "extend_times k ext th ls = Some mid \<Longrightarrow> mid \<noteq> [] \<Longrightarrow> 100 < num_rows (lvl_A (last mid)) \<Longrightarrow>
   extend_hierarchy ext th mid = Some ls' \<Longrightarrow> extend_times (Suc k) ext th ls = Some ls'"
proof (induction k arbitrary: ls)
  case 0
  then show ?case by simp
next
  case (Suc k)
  from Suc.prems(1) obtain l1 where c: "ls \<noteq> [] \<and> 100 < num_rows (lvl_A (last ls))"
    and e: "extend_hierarchy ext th ls = Some l1" and t: "extend_times k ext th l1 = Some mid"
    by (auto split: if_splits Option.bind_splits)
  from Suc.IH [OF t Suc.prems(2,3,4)] have "extend_times (Suc k) ext th l1 = Some ls'" .
  with c e show ?case by (simp del: extend_times.simps(2) add: extend_times.simps(2) [of "Suc k"])
qed

lemma reduces_shrinks:
  assumes m: "multiply_keeps_rows ext" and r: "aggregation_reduces ext th A0"
  shows "coarsening_shrinks ext th (\<lambda>ls. \<exists>k. extend_times k ext th [first_level ext A0] = Some ls)"
  unfolding coarsening_shrinks_def
proof (intro allI impI)
  fix ls
  assume a: "(\<exists>k. extend_times k ext th [first_level ext A0] = Some ls) \<and> ls \<noteq> []
      \<and> 100 < num_rows (lvl_A (last ls))"
  then obtain k where k: "extend_times k ext th [first_level ext A0] = Some ls"
    and ne: "ls \<noteq> []" and big: "100 < num_rows (lvl_A (last ls))" by blast
  from r k big have ok: "step_inputs_ok ext th (last ls)"
    and few: "nat (Max (set (level_aggregates ext th (last ls))) + 1) < num_rows (lvl_A (last ls))"
    unfolding aggregation_reduces_def by blast+
  from extend_hierarchy_succeeds [OF ne ok] obtain Bc P where
    e: "extend_hierarchy ext th ls =
       Some (butlast ls @ [finished_level ext th (last ls) P,
                           pushed_level ext (galerkin ext (lvl_A (last ls)) P) Bc])"
    and c: "num_cols P = nat (Max (set (level_aggregates ext th (last ls))) + 1)"
    by blast
  let ?ls' = "butlast ls @ [finished_level ext th (last ls) P,
                           pushed_level ext (galerkin ext (lvl_A (last ls)) P) Bc]"
  have "num_rows (lvl_A (last ?ls')) = num_rows (transpose_coo P)"
    using m by (simp add: galerkin_def multiply_keeps_rows_def)
  also have "\<dots> = num_cols P" by (simp add: transpose_coo_def Let_def)
  finally have d: "num_rows (lvl_A (last ?ls')) < num_rows (lvl_A (last ls))"
    using c few by simp
  have "extend_times (Suc k) ext th [first_level ext A0] = Some ?ls'"
    by (rule extend_times_end [OF k ne big e])
  then have "\<exists>k. extend_times k ext th [first_level ext A0] = Some ?ls'" ..
  with e d show "\<exists>ls'. extend_hierarchy ext th ls = Some ls'
      \<and> (\<exists>k. extend_times k ext th [first_level ext A0] = Some ls')
      \<and> num_rows (lvl_A (last ls')) < num_rows (lvl_A (last ls))"
    by blast
qed

text \<open>
  Claim C6, as amended. In every hierarchy that the constructor returns the last
  operator has at most \<open>100\<close> rows and every earlier one more than \<open>100\<close>. When the matrix
  product has the rows of its left operand, the operator of level \<open>i + 1\<close> has as
  many rows as aggregation returned ids at level \<open>i\<close> (the maximum id plus one). When
  moreover, at every level list the loop reaches, the step stays inside its arrays and
  aggregation returns fewer ids than the operator has rows
  (\<^const>\<open>aggregation_reduces\<close>), the loop ends within \<open>num_rows A - 100\<close> passes and the row
  counts of a returned hierarchy decrease strictly from level to level.
\<close>

theorem coarsening_threshold:
  "(build fuel ext A0 th = Some h \<longrightarrow>
      levels h \<noteq> [] \<and> num_rows (lvl_A (last (levels h))) \<le> 100
      \<and> (\<forall>i. i + 1 < length (levels h) \<longrightarrow> 100 < num_rows (lvl_A (levels h ! i))))
   \<and> (multiply_keeps_rows ext \<longrightarrow>
        (build fuel ext A0 th = Some h \<longrightarrow>
           (\<forall>i. i + 1 < length (levels h) \<longrightarrow>
              num_rows (lvl_A (levels h ! (i + 1)))
                = nat (Max (set (lvl_aggregates (levels h ! i))) + 1)))
        \<and> (aggregation_reduces ext th A0 \<longrightarrow>
             (\<exists>h'. build (num_rows A0 - 100) ext A0 th = Some h')
             \<and> (build fuel ext A0 th = Some h \<longrightarrow>
                  (\<forall>i. i + 1 < length (levels h) \<longrightarrow>
                     num_rows (lvl_A (levels h ! (i + 1))) < num_rows (lvl_A (levels h ! i))))))"
proof (intro conjI impI allI)
  assume b: "build fuel ext A0 th = Some h"
  show "levels h \<noteq> []" by (rule build_invariant(2) [OF b])
  show "num_rows (lvl_A (last (levels h))) \<le> 100" by (rule build_invariant(3) [OF b])
  fix i assume "i + 1 < length (levels h)"
  then have "level_link ext th (levels h ! i) (levels h ! (i + 1))" by (rule build_link [OF b])
  then show "100 < num_rows (lvl_A (levels h ! i))" by (simp add: level_link_def)
next
  fix i
  assume m: "multiply_keeps_rows ext" and b: "build fuel ext A0 th = Some h"
    and i: "i + 1 < length (levels h)"
  have "level_link ext th (levels h ! i) (levels h ! (i + 1))" by (rule build_link [OF b i])
  then show "num_rows (lvl_A (levels h ! (i + 1)))
      = nat (Max (set (lvl_aggregates (levels h ! i))) + 1)"
    using m by (rule level_link_rows)
next
  assume m: "multiply_keeps_rows ext" and r: "aggregation_reduces ext th A0"
  let ?Inv = "\<lambda>ls. \<exists>k. extend_times k ext th [first_level ext A0] = Some ls"
  have sh: "coarsening_shrinks ext th ?Inv" by (rule reduces_shrinks [OF m r])
  have i: "?Inv [first_level ext A0]" by (rule exI [of _ 0]) simp
  have "num_rows (lvl_A (last [first_level ext A0])) - 100 \<le> num_rows A0 - 100"
    by (simp add: first_level_def)
  from coarsen_terminates [OF sh i _ this]
  obtain ls' where "coarsen (num_rows A0 - 100) ext th [first_level ext A0] = Some ls'" by auto
  then show "\<exists>h'. build (num_rows A0 - 100) ext A0 th = Some h'"
    by (simp add: build_def first_level_def resize_def del: coarsen.simps)
next
  fix i
  assume m: "multiply_keeps_rows ext" and r: "aggregation_reduces ext th A0"
  let ?Inv = "\<lambda>ls. \<exists>k. extend_times k ext th [first_level ext A0] = Some ls"
  have sh: "coarsening_shrinks ext th ?Inv" by (rule reduces_shrinks [OF m r])
  have inv: "?Inv [first_level ext A0]" by (rule exI [of _ 0]) simp
  assume b: "build fuel ext A0 th = Some h" and i: "i + 1 < length (levels h)"
  have c: "coarsen fuel ext th [first_level ext A0] = Some (levels h)"
    by (rule build_levels(1) [OF b])
  have "successively rows_decrease (levels h)"
    by (rule coarsen_rows_decrease [OF sh c inv]) simp
  with i show "num_rows (lvl_A (levels h ! (i + 1))) < num_rows (lvl_A (levels h ! i))"
    by (simp add: successively_conv_nth rows_decrease_def)
qed

lemma sample_level_aggregates:
  "level_aggregates sample_ext th l = map (\<lambda>i. int (i div 2)) [0..<num_rows (lvl_A l)]"
  by (simp add: level_aggregates_def sample_ext_def)

lemma sample_multiply_rows: "num_rows (multiply_mm sample_ext X Y) = num_rows X"
  by (simp add: sample_ext_def coo_product_def Let_def)

lemma pairs_max:
  assumes "0 < n"
  shows "Max (set (map (\<lambda>i. int (i div 2)) [0..<n])) = int ((n - 1) div 2)"
proof (rule Max_eqI)
  show "finite (set (map (\<lambda>i. int (i div 2)) [0..<n]))" by simp
  fix y assume "y \<in> set (map (\<lambda>i. int (i div 2)) [0..<n])"
  then obtain i where "i < n" "y = int (i div 2)" by auto
  then show "y \<le> int ((n - 1) div 2)" by (simp add: div_le_mono)
next
  have "n - 1 < n" using assms by simp
  then show "int ((n - 1) div 2) \<in> set (map (\<lambda>i. int (i div 2)) [0..<n])" by force
qed

lemma sample_first_step:
  assumes rows: "num_rows A0 = 101" and wf: "coo_wf A0"
    and cs: "\<forall>c\<in>set (column_indices A0). 0 \<le> c \<and> c < 101"
    and rs: "\<forall>r\<in>set (row_indices A0). 0 \<le> r \<and> r < 101"
  shows "step_inputs_ok sample_ext th (first_level sample_ext A0)"
    and "\<exists>ls'. extend_hierarchy sample_ext th [first_level sample_ext A0] = Some ls'
           \<and> length ls' = 2 \<and> num_rows (lvl_A (last ls')) = 51"
proof -
  let ?l = "first_level sample_ext A0"
  have A: "lvl_A ?l = A0" and B: "lvl_B ?l = replicate 101 1"
    by (simp_all add: first_level_def rows)
  have ag: "level_aggregates sample_ext th ?l = map (\<lambda>i. int (i div 2)) [0..<101]"
    by (simp add: sample_level_aggregates A rows)
  show ok: "step_inputs_ok sample_ext th ?l"
    unfolding step_inputs_ok_def ag A B using wf cs rs by (simp add: rows)
  have "last [?l] = ?l" by simp
  with extend_hierarchy_succeeds [of "[?l]" sample_ext th] ok
  obtain T Bc P where e: "extend_hierarchy sample_ext th [?l] =
       Some (butlast [?l] @ [finished_level sample_ext th ?l P,
                           pushed_level sample_ext (galerkin sample_ext (lvl_A ?l) P) Bc])"
    and c: "num_cols P = nat (Max (set (level_aggregates sample_ext th ?l)) + 1)"
    by auto
  have "Max (set (map (\<lambda>i. int (i div 2)) [0..<101])) = int ((101 - 1) div 2)"
    by (rule pairs_max) simp
  then have "num_cols P = 51" by (simp add: c ag)
  then have "num_rows (galerkin sample_ext (lvl_A ?l) P) = 51"
    by (simp add: galerkin_def sample_multiply_rows transpose_coo_def Let_def)
  with e show "\<exists>ls'. extend_hierarchy sample_ext th [?l] = Some ls'
           \<and> length ls' = 2 \<and> num_rows (lvl_A (last ls')) = 51"
    by simp
qed

lemma sample_build:
  assumes rows: "num_rows A0 = 101" and wf: "coo_wf A0"
    and cs: "\<forall>c\<in>set (column_indices A0). 0 \<le> c \<and> c < 101"
    and rs: "\<forall>r\<in>set (row_indices A0). 0 \<le> r \<and> r < 101"
  shows "\<exists>h. build 1 sample_ext A0 th = Some h \<and> length (levels h) = 2"
proof -
  let ?l = "first_level sample_ext A0"
  from sample_first_step(2) [OF assms] obtain ls' where
    e: "extend_hierarchy sample_ext th [?l] = Some ls'" and l: "length ls' = 2"
    and r: "num_rows (lvl_A (last ls')) = 51"
    by blast
  have big: "100 < num_rows (lvl_A (last [?l]))" by (simp add: first_level_def rows)
  have "coarsen 0 sample_ext th ls' = Some ls'" using r by (intro coarsen_stop) simp
  then have "coarsen (Suc 0) sample_ext th [?l] = Some ls'"
    using e big by (subst coarsen_Suc) simp_all
  then show ?thesis
    using l by (simp add: build_def first_level_def resize_def del: coarsen.simps)
qed

lemma sample_A101_ok:
  "num_rows sample_A101 = 101" "coo_wf sample_A101"
  "\<forall>c\<in>set (column_indices sample_A101). 0 \<le> c \<and> c < 101"
  "\<forall>r\<in>set (row_indices sample_A101). 0 \<le> r \<and> r < 101"
  by (simp_all add: sample_A101_def coo_wf_def)

lemma zero_diagonal_A101_ok:
  "num_rows zero_diagonal_A101 = 101" "coo_wf zero_diagonal_A101"
  "\<forall>c\<in>set (column_indices zero_diagonal_A101). 0 \<le> c \<and> c < 101"
  "\<forall>r\<in>set (row_indices zero_diagonal_A101). 0 \<le> r \<and> r < 101"
  by (simp_all add: zero_diagonal_A101_def coo_wf_def)

theorem galerkin_chain_witness:
  "\<exists>h. build 1 sample_ext sample_A101 0 = Some h \<and> 0 + 1 < length (levels h)
     \<and> lvl_R (levels h ! 0) = transpose_coo (lvl_P (levels h ! 0))
     \<and> lvl_A (levels h ! (0 + 1))
         = multiply_mm sample_ext (lvl_R (levels h ! 0))
             (multiply_mm sample_ext (lvl_A (levels h ! 0)) (lvl_P (levels h ! 0)))"
proof -
  from sample_build [OF sample_A101_ok, of 0] obtain h where
    b: "build 1 sample_ext sample_A101 0 = Some h" and l: "0 + 1 < length (levels h)"
    by auto
  from galerkin_chain [OF b l] b l show ?thesis by blast
qed









lemma sample_aggregation_reduces: "aggregation_reduces sample_ext 0 sample_A101"
  unfolding aggregation_reduces_def
proof (intro allI impI)
  fix k ls
  let ?l = "first_level sample_ext sample_A101"
  assume a: "extend_times k sample_ext 0 [?l] = Some ls \<and> 100 < num_rows (lvl_A (last ls))"
  from sample_first_step(2) [OF sample_A101_ok, of 0] obtain ls1 where
    e: "extend_hierarchy sample_ext 0 [?l] = Some ls1"
    and r: "num_rows (lvl_A (last ls1)) = 51"
    by blast
  have "ls = [?l]"
  proof (cases k)
    case 0
    with a show ?thesis by simp
  next
    case (Suc k')
    with a e have t: "extend_times k' sample_ext 0 ls1 = Some ls"
      by (simp split: if_splits)
    show ?thesis
    proof (cases k')
      case 0
      with t a r show ?thesis by simp
    next
      case (Suc k'')
      with t r show ?thesis by simp
    qed
  qed
  moreover have "Max (set (map (\<lambda>i. int (i div 2)) [0..<101])) = int ((101 - 1) div 2)"
    by (rule pairs_max) simp
  ultimately show "step_inputs_ok sample_ext 0 (last ls) \<and>
        nat (Max (set (level_aggregates sample_ext 0 (last ls))) + 1) < num_rows (lvl_A (last ls))"
    using sample_first_step(1) [OF sample_A101_ok, of 0]
    by (simp add: sample_level_aggregates first_level_def sample_A101_ok(1))
qed

text \<open>The bounds, the row count and the decrease at the operator of \<open>101\<close> rows of the
  concrete instance, whose single coarsening step pairs the rows.\<close>

theorem coarsening_threshold_witness:
  "\<exists>h. build 1 sample_ext sample_A101 0 = Some h
     \<and> levels h \<noteq> [] \<and> num_rows (lvl_A (last (levels h))) \<le> 100
     \<and> 0 + 1 < length (levels h) \<and> 100 < num_rows (lvl_A (levels h ! 0))
     \<and> num_rows (lvl_A (levels h ! (0 + 1)))
         = nat (Max (set (lvl_aggregates (levels h ! 0))) + 1)
     \<and> (\<exists>h'. build (num_rows sample_A101 - 100) sample_ext sample_A101 0 = Some h')
     \<and> num_rows (lvl_A (levels h ! (0 + 1))) < num_rows (lvl_A (levels h ! 0))"
proof -
  from sample_build [OF sample_A101_ok, of 0] obtain h where
    b: "build 1 sample_ext sample_A101 0 = Some h" and l: "0 + 1 < length (levels h)"
    by auto
  have m: "multiply_keeps_rows sample_ext"
    by (simp add: multiply_keeps_rows_def sample_multiply_rows)
  note r = sample_aggregation_reduces
  note ct = coarsening_threshold [of 1 sample_ext sample_A101 0 h]
  from ct b have t1: "levels h \<noteq> []" "num_rows (lvl_A (last (levels h))) \<le> 100"
    "\<forall>i. i + 1 < length (levels h) \<longrightarrow> 100 < num_rows (lvl_A (levels h ! i))"
    by blast+
  from ct b m have t2: "\<forall>i. i + 1 < length (levels h) \<longrightarrow>
      num_rows (lvl_A (levels h ! (i + 1))) = nat (Max (set (lvl_aggregates (levels h ! i))) + 1)"
    by blast
  from ct b m r have t3: "\<exists>h'. build (num_rows sample_A101 - 100) sample_ext sample_A101 0 = Some h'"
    "\<forall>i. i + 1 < length (levels h) \<longrightarrow>
      num_rows (lvl_A (levels h ! (i + 1))) < num_rows (lvl_A (levels h ! i))"
    by blast+
  from t1 t2 t3 b l show ?thesis by blast
qed

text \<open>
  Claim C7, as amended. A coarsening step on a level that satisfies
  \<^const>\<open>step_inputs_ok\<close> returns a level list with one more level, whatever the values of
  the operator are: no diagonal entry is examined, and the division by a zero diagonal
  entry is carried out.
\<close>

theorem construction_ignores_diagonal:
  assumes "ls \<noteq> []" "step_inputs_ok ext th (last ls)"
  shows "\<exists>ls'. extend_hierarchy ext th ls = Some ls' \<and> length ls' = Suc (length ls)"
proof -
  from extend_hierarchy_succeeds [OF assms] obtain ls' where
    "extend_hierarchy ext th ls = Some ls'" "length ls' = length (butlast ls) + 2"
    by (metis length_append list.size(3,4) add_2_eq_Suc' One_nat_def add.right_neutral add_Suc_right)
  with assms(1) show ?thesis by simp
qed

theorem construction_ignores_diagonal_witness:
  "[first_level sample_ext zero_diagonal_A101] \<noteq> []
   \<and> step_inputs_ok sample_ext 0 (last [first_level sample_ext zero_diagonal_A101])
   \<and> extract_diagonal (lvl_A (last [first_level sample_ext zero_diagonal_A101])) ! 0 = 0
   \<and> (\<exists>ls'. extend_hierarchy sample_ext 0 [first_level sample_ext zero_diagonal_A101] = Some ls'
         \<and> length ls' = 2)"
proof -
  have ok: "step_inputs_ok sample_ext 0 (last [first_level sample_ext zero_diagonal_A101])"
    using sample_first_step(1) [OF zero_diagonal_A101_ok] by simp
  have d: "extract_diagonal (lvl_A (last [first_level sample_ext zero_diagonal_A101])) ! 0 = 0"
    by (simp add: first_level_def extract_diagonal_def zero_diagonal_A101_def coo_entries_def)
  from construction_ignores_diagonal [OF _ ok] ok d show ?thesis by (simp add: numeral_2_eq_2)
qed

text \<open>
  Claim C7 as stated fails: for the operator of \<open>101\<close> rows whose only entry is at
  \<open>(0, 1)\<close>, row \<open>0\<close> has the diagonal entry \<open>0\<close>, the smoothing divides the entry of
  row \<open>0\<close> by it, and the constructor returns a hierarchy.
\<close>

theorem zero_diagonal_tolerated_counterexample:
  "build 1 sample_ext zero_diagonal_A101 0 \<noteq> None
   \<and> row_indices zero_diagonal_A101 = [0]
   \<and> extract_diagonal zero_diagonal_A101 ! 0 = 0"
proof -
  from sample_build [OF zero_diagonal_A101_ok, of 0]
  have "build 1 sample_ext zero_diagonal_A101 0 \<noteq> None" by auto
  moreover have "extract_diagonal zero_diagonal_A101 ! 0 = 0"
    by (simp add: extract_diagonal_def zero_diagonal_A101_def coo_entries_def)
  ultimately show ?thesis by (simp add: zero_diagonal_A101_def)
qed

section \<open>The V-cycle and its scratch arrays\<close>

lemma axpby_vec_sub: "axpby u v 1 (- 1) = vec_sub u v"
  by (simp add: axpby_def vec_sub_def)

lemma map2_flip: "map2 f xs ys = map2 (\<lambda>a c. f c a) ys xs"
proof -
  have "length (map2 f xs ys) = length (map2 (\<lambda>a c. f c a) ys xs)" by (simp add: min.commute)
  then show ?thesis by (rule nth_equalityI) simp
qed

lemma axpy_vec_add: "axpy u v 1 = vec_add v u"
proof (cases "length u = length v")
  case True
  have "map2 (\<lambda>a c. c + 1 * a) u v = map2 (\<lambda>a c. a + c) v u"
    by (subst map2_flip) simp
  with True show ?thesis by (simp add: axpy_def vec_add_def)
next
  case False
  then show ?thesis by (auto simp: axpy_def vec_add_def)
qed

lemma v_cycle_head_scratch:
  "v_cycle ext lu (l \<lparr> lvl_b := w \<rparr> # ls) bv xv = v_cycle ext lu (l # ls) bv xv"
proof (cases ls)
  case Nil then show ?thesis by simp
next
  case (Cons l' ls') then show ?thesis by simp
qed

lemma solve_level_terminal:
  "i + 1 = length (levels h) \<Longrightarrow>
   solve_level ext h bv xv i = Some (lu_solve ext (LU h) bv (replicate (length xv) 0), h)"
  by (subst solve_level.simps) (simp add: resize_def)

declare solve_level.simps [simp del]

lemma drop_two_updates:
  assumes "Suc i < length xs"
  shows "drop (Suc i) (xs[i := a, Suc i := c]) = c # drop (Suc (Suc i)) xs"
proof -
  have "drop (Suc i) (xs[i := a, Suc i := c]) = (drop (Suc i) (xs[i := a]))[0 := c]"
    by (simp add: drop_update_swap)
  also have "drop (Suc i) (xs[i := a]) = drop (Suc i) xs" by simp
  also have "drop (Suc i) xs = xs ! Suc i # drop (Suc (Suc i)) xs"
    using assms by (simp add: Cons_nth_drop_Suc)
  finally show ?thesis by simp
qed

theorem solve_level_refines:
  "i < length (levels h) \<Longrightarrow>
   map_option fst (solve_level ext h bv xv i) = v_cycle ext (LU h) (drop i (levels h)) bv xv"
proof (induction ext h bv xv i rule: solve_level.induct)
  case (1 ext h bv xv i)
  show ?case
  proof (cases "i + 1 = length (levels h)")
    case True
    then have "drop i (levels h) = [levels h ! i]"
      by (metis "1.prems" Cons_nth_drop_Suc Suc_eq_plus1 drop_all order_refl)
    with True show ?thesis by (simp add: solve_level_terminal)
  next
    case False
    with "1.prems" have lt: "Suc i < length (levels h)" by simp
    let ?lv = "levels h ! i"
    let ?l' = "levels h ! Suc i"
    let ?x1 = "presmooth ext (lvl_smoother ?lv) (lvl_A_view ?lv) bv xv"
    let ?res0 = "multiply_mv ext (Csr_view (lvl_A_view ?lv)) ?x1"
    have d: "drop i (levels h) = ?lv # ?l' # drop (Suc (Suc i)) (levels h)"
      using lt by (metis Cons_nth_drop_Suc Suc_lessD)
    show ?thesis
    proof (cases "axpby bv ?res0 1 (- 1)")
      case None
      then have "vec_sub bv ?res0 = None" by (simp add: axpby_vec_sub)
      moreover have "solve_level ext h bv xv i = None"
        using None False lt by (subst solve_level.simps) (simp add: Let_def)
      ultimately show ?thesis by (simp add: d Let_def)
    next
      case (Some res1)
      let ?cb = "multiply_mv ext (Csr_view (lvl_R_view ?lv)) res1"
      let ?h1 = "h \<lparr> levels := (levels h)
                   [i := ?lv \<lparr> lvl_residual := res1 \<rparr>,
                    Suc i := ?l' \<lparr> lvl_b := ?cb \<rparr>] \<rparr>"
      have vs: "vec_sub bv ?res0 = Some res1" using Some by (simp add: axpby_vec_sub)
      have nle: "\<not> length (levels h) \<le> i" using lt by simp
      have l1: "Suc i < length (levels ?h1)" using lt by simp
      have ih: "map_option fst (solve_level ext ?h1 ?cb (lvl_x (levels ?h1 ! Suc i)) (Suc i))
          = v_cycle ext (LU ?h1) (drop (Suc i) (levels ?h1)) ?cb (lvl_x (levels ?h1 ! Suc i))"
        by (rule "1.IH" [OF False nle refl refl refl refl refl refl Some refl refl l1])
      have x1: "lvl_x (levels ?h1 ! Suc i) = lvl_x ?l'" using lt by simp
      have d1: "drop (Suc i) (levels ?h1) = ?l' \<lparr> lvl_b := ?cb \<rparr> # drop (Suc (Suc i)) (levels h)"
        using lt by (simp add: drop_two_updates)
      have rec: "map_option fst (solve_level ext ?h1 ?cb (lvl_x ?l') (Suc i))
          = v_cycle ext (LU h) (?l' # drop (Suc (Suc i)) (levels h)) ?cb (lvl_x ?l')"
        using ih by (simp only: x1 d1 v_cycle_head_scratch) simp
      have unfold: "solve_level ext h bv xv i =
          Option.bind (solve_level ext ?h1 ?cb (lvl_x ?l') (Suc i))
            (\<lambda>(coarse_x, h2).
               Option.bind (axpy (multiply_mv ext (Csr_view (lvl_P_view ?lv)) coarse_x) ?x1 1)
                 (\<lambda>x2. Some (postsmooth ext (lvl_smoother ?lv) (lvl_A_view ?lv) bv x2,
                    h2 \<lparr> levels := (levels h2)
                        [Suc i := (levels h2 ! Suc i) \<lparr> lvl_x := coarse_x \<rparr>,
                         i := (levels h2 ! i) \<lparr> lvl_residual :=
                                multiply_mv ext (Csr_view (lvl_P_view ?lv)) coarse_x \<rparr>] \<rparr>)))"
        using False nle Some x1 by (subst solve_level.simps) (simp add: Let_def)
      show ?thesis
      proof (cases "solve_level ext ?h1 ?cb (lvl_x ?l') (Suc i)")
        case None
        with rec have "v_cycle ext (LU h) (?l' # drop (Suc (Suc i)) (levels h)) ?cb (lvl_x ?l') = None"
          by simp
        with None show ?thesis by (simp add: unfold d vs Let_def)
      next
        case (Some r)
        obtain cx h2 where r: "r = (cx, h2)" by (cases r)
        with Some rec have
          "v_cycle ext (LU h) (?l' # drop (Suc (Suc i)) (levels h)) ?cb (lvl_x ?l') = Some cx"
          by simp
        with Some r show ?thesis
          by (cases "axpy (multiply_mv ext (Csr_view (lvl_P_view ?lv)) cx) ?x1 1")
             (simp_all add: unfold d vs Let_def axpy_vec_add [symmetric])
      qed
    qed
  qed
qed

lemma v_cycle_scratch_independent:
  assumes ow: "presmooth_overwrites ext"
  shows "list_all2 same_operators_level ls1 ls2 \<Longrightarrow> length x1 = length x2 \<Longrightarrow>
         v_cycle ext lu ls1 bv x1 = v_cycle ext lu ls2 bv x2"
proof (induction ls1 ls2 arbitrary: bv x1 x2 rule: list_all2_induct)
  case Nil
  then show ?case by simp
next
  case (Cons l1 ls1 l2 ls2)
  show ?case
  proof (cases ls1)
    case Nil
    with Cons.hyps(2) have "ls2 = []" by simp
    with Nil Cons.prems show ?thesis by simp
  next
    case (Cons l1' rest1)
    with Cons.hyps(2) obtain l2' rest2 where ls2: "ls2 = l2' # rest2"
      and s': "same_operators_level l1' l2'"
      by (auto simp: list_all2_Cons1)
    have s: "same_operators_level l1 l2" by (rule Cons.hyps(1))
    have p: "presmooth ext sm Av bv x1 = presmooth ext sm Av bv x2" for sm Av
      using ow unfolding presmooth_overwrites_def by blast
    have lx: "length (lvl_x l1') = length (lvl_x l2')"
      using s' by (simp add: same_operators_level_def)
    have rec: "v_cycle ext lu (l1' # rest1) cb (lvl_x l1') = v_cycle ext lu (l2' # rest2) cb (lvl_x l2')" for cb
      using Cons.IH [OF lx, of cb] Cons ls2 by simp
    show ?thesis
      using s by (simp add: Cons ls2 p rec same_operators_level_def Let_def)
  qed
qed

text \<open>
  Claim C4. At every level \<open>i\<close> of the hierarchy the value that \<open>_solve\<close> leaves in \<open>x\<close> is
  the one of the V-cycle of the specification on the levels from \<open>i\<close> on. At the last
  level (\<open>i + 1 = num_levels\<close>) it is the result of the stored LU solver on \<open>b\<close>, and
  the object is unchanged. Before the last level (\<open>i + 1 < num_levels\<close>) it is computed
  in this order: presmooth \<open>x\<close>; \<open>r = b - A x\<close>; \<open>coarse_b = R r\<close>; the recursive call at
  level \<open>i + 1\<close> on \<open>coarse_b\<close> and the scratch \<open>x\<close> of that level, giving \<open>coarse_x\<close>;
  \<open>x + P coarse_x\<close>; postsmooth.
\<close>

theorem v_cycle_step:
  "(i < length (levels h) \<longrightarrow>
      map_option fst (solve_level ext h bv xv i) = v_cycle ext (LU h) (drop i (levels h)) bv xv)
   \<and> (i + 1 = length (levels h) \<longrightarrow>
        solve_level ext h bv xv i = Some (lu_solve ext (LU h) bv (replicate (length xv) 0), h))
   \<and> (i + 1 < length (levels h) \<longrightarrow>
        map_option fst (solve_level ext h bv xv i) = do {
          let x1 = presmooth ext (lvl_smoother (levels h ! i)) (lvl_A_view (levels h ! i)) bv xv;
          r \<leftarrow> vec_sub bv (multiply_mv ext (Csr_view (lvl_A_view (levels h ! i))) x1);
          let coarse_b = multiply_mv ext (Csr_view (lvl_R_view (levels h ! i))) r;
          coarse_x \<leftarrow> map_option fst
             (solve_level ext
                (h \<lparr> levels := (levels h)
                   [i := (levels h ! i) \<lparr> lvl_residual := r \<rparr>,
                    Suc i := (levels h ! Suc i) \<lparr> lvl_b := coarse_b \<rparr>] \<rparr>)
                coarse_b (lvl_x (levels h ! (i + 1))) (i + 1));
          x2 \<leftarrow> vec_add x1 (multiply_mv ext (Csr_view (lvl_P_view (levels h ! i))) coarse_x);
          Some (postsmooth ext (lvl_smoother (levels h ! i)) (lvl_A_view (levels h ! i)) bv x2)
        })"
proof (intro conjI impI)
  assume "i < length (levels h)"
  then show "map_option fst (solve_level ext h bv xv i) = v_cycle ext (LU h) (drop i (levels h)) bv xv"
    by (rule solve_level_refines)
next
  assume "i + 1 = length (levels h)"
  then show "solve_level ext h bv xv i = Some (lu_solve ext (LU h) bv (replicate (length xv) 0), h)"
    by (rule solve_level_terminal)
next
  assume lt: "i + 1 < length (levels h)"
  let ?lv = "levels h ! i"
  let ?l' = "levels h ! Suc i"
  have d: "drop i (levels h) = ?lv # ?l' # drop (Suc (Suc i)) (levels h)"
    using lt by (metis Cons_nth_drop_Suc Suc_lessD Suc_eq_plus1)
  have a: "map_option fst (solve_level ext h bv xv i) = v_cycle ext (LU h) (drop i (levels h)) bv xv"
    using lt by (intro solve_level_refines) simp
  have inner: "map_option fst (solve_level ext
                (h \<lparr> levels := (levels h)
                   [i := ?lv \<lparr> lvl_residual := r \<rparr>,
                    Suc i := ?l' \<lparr> lvl_b := cb \<rparr>] \<rparr>) cb (lvl_x ?l') (Suc i))
       = v_cycle ext (LU h) (?l' # drop (Suc (Suc i)) (levels h)) cb (lvl_x ?l')" for r cb
  proof -
    let ?h1 = "h \<lparr> levels := (levels h)
                   [i := ?lv \<lparr> lvl_residual := r \<rparr>, Suc i := ?l' \<lparr> lvl_b := cb \<rparr>] \<rparr>"
    have "Suc i < length (levels ?h1)" using lt by simp
    then have "map_option fst (solve_level ext ?h1 cb (lvl_x ?l') (Suc i))
        = v_cycle ext (LU ?h1) (drop (Suc i) (levels ?h1)) cb (lvl_x ?l')"
      by (rule solve_level_refines)
    also have "drop (Suc i) (levels ?h1) = ?l' \<lparr> lvl_b := cb \<rparr> # drop (Suc (Suc i)) (levels h)"
      using lt by (simp add: drop_two_updates)
    finally show ?thesis by (simp add: v_cycle_head_scratch)
  qed
  show "map_option fst (solve_level ext h bv xv i) = do {
          let x1 = presmooth ext (lvl_smoother (levels h ! i)) (lvl_A_view (levels h ! i)) bv xv;
          r \<leftarrow> vec_sub bv (multiply_mv ext (Csr_view (lvl_A_view (levels h ! i))) x1);
          let coarse_b = multiply_mv ext (Csr_view (lvl_R_view (levels h ! i))) r;
          coarse_x \<leftarrow> map_option fst
             (solve_level ext
                (h \<lparr> levels := (levels h)
                   [i := (levels h ! i) \<lparr> lvl_residual := r \<rparr>,
                    Suc i := (levels h ! Suc i) \<lparr> lvl_b := coarse_b \<rparr>] \<rparr>)
                coarse_b (lvl_x (levels h ! (i + 1))) (i + 1));
          x2 \<leftarrow> vec_add x1 (multiply_mv ext (Csr_view (lvl_P_view (levels h ! i))) coarse_x);
          Some (postsmooth ext (lvl_smoother (levels h ! i)) (lvl_A_view (levels h ! i)) bv x2)
        }"
    by (simp add: a d inner Let_def)
qed

text \<open>
  Claim C8, as amended. With a presmoother whose result does not depend on the content
  of \<open>x\<close> at the call, the value that \<open>apply(b, x)\<close> leaves in \<open>x\<close> is the same for two
  objects with the same operators, whatever their scratch arrays \<open>x\<close>, \<open>b\<close> and
  \<open>residual\<close> hold, and for two arrays \<open>x\<close> of the same size, whatever they hold.
\<close>

theorem apply_vcycle_scratch_free:
  assumes "presmooth_overwrites ext" "same_operators h1 h2" "length x1 = length x2"
  shows "map_option fst (apply_vcycle ext h1 bv x1) = map_option fst (apply_vcycle ext h2 bv x2)"
proof (cases "levels h1 = []")
  case True
  with assms(2) have "levels h2 = []" by (simp add: same_operators_def)
  with True show ?thesis
    by (simp add: apply_vcycle_def solve_level.simps [of _ h1] solve_level.simps [of _ h2])
next
  case False
  with assms(2) have "levels h2 \<noteq> []" by (auto simp: same_operators_def)
  with False have "map_option fst (apply_vcycle ext h1 bv x1) = v_cycle ext (LU h1) (levels h1) bv x1"
    "map_option fst (apply_vcycle ext h2 bv x2) = v_cycle ext (LU h2) (levels h2) bv x2"
    by (simp_all add: apply_vcycle_def solve_level_refines)
  moreover have "v_cycle ext (LU h1) (levels h1) bv x1 = v_cycle ext (LU h2) (levels h2) bv x2"
    using assms(2) v_cycle_scratch_independent [OF assms(1) _ assms(3), of "levels h1" "levels h2" "LU h1" bv]
    by (simp add: same_operators_def)
  ultimately show ?thesis by simp
qed

lemma sample_v_cycle:
  "v_cycle sample_ext [2] [sample_level0, sample_level1] [1, 1] [0, 0] = Some [1, 1]"
  by (simp add: sample_level0_def sample_level1_def sample_ext_def csr_spmv_def vec_sub_def
      vec_add_def new_level_def Let_def eval_nat_numeral)

lemma sample_presmooth_overwrites: "presmooth_overwrites sample_ext"
  by (simp add: presmooth_overwrites_def sample_ext_def)

lemma sample_same_operators: "same_operators sample_hierarchy sample_hierarchy_used"
  by (simp add: same_operators_def sample_hierarchy_used_def sample_hierarchy_def
      same_operators_level_def sample_level1_def)

theorem v_cycle_step_witness:
  "0 < length (levels sample_hierarchy) \<and> 0 + 1 < length (levels sample_hierarchy)
   \<and> 1 + 1 = length (levels sample_hierarchy)
   \<and> map_option fst (solve_level sample_ext sample_hierarchy [1, 1] [0, 0] 0) = Some [1, 1]
   \<and> map_option fst (solve_level sample_ext sample_hierarchy [4 / 3] [0] 1) = Some [2 / 3]"
proof -
  have l: "length (levels sample_hierarchy) = 2" by (simp add: sample_hierarchy_def)
  have a: "map_option fst (solve_level sample_ext sample_hierarchy [1, 1] [0, 0] 0)
      = v_cycle sample_ext (LU sample_hierarchy) (drop 0 (levels sample_hierarchy)) [1, 1] [0, 0]"
    using v_cycle_step [of 0 sample_hierarchy sample_ext "[1, 1]" "[0, 0]"] l by simp
  have b: "solve_level sample_ext sample_hierarchy [4 / 3] [0] 1
      = Some (lu_solve sample_ext (LU sample_hierarchy) [4 / 3] (replicate (length [0::real]) 0),
              sample_hierarchy)"
    using v_cycle_step [of 1 sample_hierarchy sample_ext "[4 / 3]" "[0]"] l by simp
  have a': "map_option fst (solve_level sample_ext sample_hierarchy [1, 1] [0, 0] 0) = Some [1, 1]"
    using a sample_v_cycle by (simp add: sample_hierarchy_def)
  have b': "map_option fst (solve_level sample_ext sample_hierarchy [4 / 3] [0] 1) = Some [2 / 3]"
  proof -
    have "lu_solve sample_ext (LU sample_hierarchy) [4 / 3] (replicate (length [0::real]) 0) = [2 / 3]"
      by (simp add: sample_ext_def sample_hierarchy_def)
    with b show ?thesis by simp
  qed
  from a' b' l show ?thesis by simp
qed

theorem apply_vcycle_scratch_free_witness:
  "presmooth_overwrites sample_ext \<and> same_operators sample_hierarchy sample_hierarchy_used
   \<and> length [0, 0::real] = length [3, 4::real]
   \<and> map_option fst (apply_vcycle sample_ext sample_hierarchy [1, 1] [0, 0])
     = map_option fst (apply_vcycle sample_ext sample_hierarchy_used [1, 1] [3, 4])"
  using apply_vcycle_scratch_free [OF sample_presmooth_overwrites sample_same_operators,
      of "[0, 0]" "[3, 4]" "[1, 1]"]
    sample_presmooth_overwrites sample_same_operators
  by simp

lemma sweep_v_cycle:
  "v_cycle sweep_ext (LU damped_hierarchy) (levels damped_hierarchy) [1, 1] [0, 0] = Some [1, 1]"
  "v_cycle sweep_ext (LU damped_hierarchy) (levels damped_hierarchy) [1, 1] [3, 4]
     = Some [31 / 32, 33 / 32]"
  by (simp_all add: sweep_ext_def damped_hierarchy_def sample_hierarchy_def sample_level0_def
      sample_level1_def sample_ext_def csr_spmv_def vec_sub_def vec_add_def new_level_def
      Let_def eval_nat_numeral)

text \<open>
  Claim C8 as stated, with no condition on the smoother, fails: \<^verbatim>\<open>_solve\<close> hands the
  incoming \<open>x\<close> to the presmoother, and with a presmoother that performs a Jacobi sweep
  from that content the same object and the same right-hand side give different
  results from \<open>x = [0, 0]\<close> and from \<open>x = [3, 4]\<close>.
\<close>

theorem apply_vcycle_sweep_counterexample:
  "map_option fst (apply_vcycle sweep_ext damped_hierarchy [1, 1] [0, 0]) = Some [1, 1]
   \<and> map_option fst (apply_vcycle sweep_ext damped_hierarchy [1, 1] [3, 4])
       = Some [31 / 32, 33 / 32]"
proof -
  have "levels damped_hierarchy \<noteq> []" by (simp add: damped_hierarchy_def)
  then have "map_option fst (apply_vcycle sweep_ext damped_hierarchy bv xv)
      = v_cycle sweep_ext (LU damped_hierarchy) (levels damped_hierarchy) bv xv" for bv xv
    by (simp add: apply_vcycle_def solve_level_refines)
  then show ?thesis by (simp only: sweep_v_cycle)
qed

section \<open>The monitored iteration on a hierarchy of one level\<close>

lemma build_single_level:
  "num_rows A0 \<le> 100 \<Longrightarrow>
   build fuel ext A0 th =
     Some \<lparr> theta = th, levels = [first_level ext A0], LU = lu_solver ext A0 \<rparr>"
  by (simp add: build_def first_level_def resize_def)

lemma first_level_view: "lvl_A_view (first_level ext A0) = empty_view"
  by (simp add: first_level_def new_level_def)

lemma solve_empty_view:
  assumes "levels h = [l]" "lvl_A_view l = empty_view"
    "multiply_mv ext (Csr_view empty_view) xv = []" "bv \<noteq> []"
  shows "solve fuel ext mon h bv xv m = None"
  using assms by (simp add: solve_def assert_that_def axpby_def Let_def)

lemma solve_loop_finished:
  "fst (finished mon m res) \<Longrightarrow>
   solve_loop fuel ext mon Av bv h xv update res m = Some (xv, snd (finished mon m res), h)"
  by (cases "finished mon m res") simp

lemma solve_loop_pass:
  "\<not> fst (finished mon m res) \<Longrightarrow>
   solve_loop (Suc fuel) ext mon Av bv h xv update res m = do {
     (update', h') \<leftarrow> solve_level ext h res update 0;
     x' \<leftarrow> axpy update' xv 1;
     res' \<leftarrow> axpby bv (multiply_mv ext (Csr_view Av) x') 1 (- 1);
     solve_loop fuel ext mon Av bv h' x' update' res' (increment mon (snd (finished mon m res)))
   }"
  by (cases "finished mon m res") (simp add: Let_def)

text \<open>
  Claim C5 at the failing input. For a matrix of at most \<open>100\<close> rows the constructor
  never calls \<open>extend_hierarchy\<close>, the only place where \<open>setup_view\<close> fills \<open>A_view\<close>;
  the view that \<open>solve\<close> reads at level \<open>0\<close> is the one of a fresh level and not the
  operator. For the matrix \<open>[[2]]\<close>, \<open>b = [1]\<close> and \<open>x = [0]\<close> the arrays \<open>update\<close> and
  \<open>residual\<close> have no element, the residual \<open>b - A\<^sub>0 x\<close> is not formed and \<open>solve\<close> does
  not return, whatever the monitor is, while one V-cycle on the same object returns
  the solution \<open>[1/2]\<close>.
\<close>

theorem solve_single_level_fails:
  "Option.bind (build 0 sample_ext sample_A1 0) (\<lambda>h. solve fuel sample_ext mon h [1] [0] m) = None
   \<and> map_option (\<lambda>h. lvl_A_view (levels h ! 0)) (build 0 sample_ext sample_A1 0) = Some empty_view
   \<and> map_option (\<lambda>h. lvl_A (levels h ! 0)) (build 0 sample_ext sample_A1 0) = Some sample_A1
   \<and> Option.bind (build 0 sample_ext sample_A1 0)
        (\<lambda>h. map_option fst (apply_vcycle sample_ext h [1] [0])) = Some [1 / 2]"
proof -
  have r: "num_rows sample_A1 \<le> 100" by (simp add: sample_A1_def)
  let ?h = "\<lparr> theta = 0, levels = [first_level sample_ext sample_A1],
             LU = lu_solver sample_ext sample_A1 \<rparr>"
  have b: "build 0 sample_ext sample_A1 0 = Some ?h" by (rule build_single_level [OF r])
  have mv: "multiply_mv sample_ext (Csr_view empty_view) [0] = []"
    by (simp add: sample_ext_def csr_spmv_def empty_view_def)
  have s: "solve fuel sample_ext mon ?h [1] [0] m = None"
    by (rule solve_empty_view [OF _ first_level_view mv]) simp_all
  have lu: "lu_solver sample_ext sample_A1 = [2]"
    by (simp add: sample_ext_def extract_diagonal_def sample_A1_def coo_entries_def)
  have a: "map_option fst (apply_vcycle sample_ext ?h [1] [0]) = Some [1 / 2]"
    by (simp add: apply_vcycle_def solve_level_terminal lu) (simp add: sample_ext_def)
  show ?thesis by (simp add: b s a first_level_view) (simp add: first_level_def)
qed

section \<open>A coarsening loop that does not end\<close>

lemma sorted_map_upt:
  fixes f :: "nat \<Rightarrow> 'a::linorder"
  assumes "\<And>i j. i \<le> j \<Longrightarrow> f i \<le> f j"
  shows "sorted (map f [m..<n])"
  by (simp add: sorted_iff_nth_mono assms)

lemma singletons_ids:
  assumes "0 < n"
  shows "Max (set (map int [0..<n])) = int n - 1" "set (map int [0..<n]) = {0..int n - 1}"
proof -
  have s: "set (map int [0..<n]) = {0..<int n}"
    by (simp add: image_int_atLeastLessThan)
  also have "\<dots> = {0..int n - 1}" by auto
  finally show "set (map int [0..<n]) = {0..int n - 1}" .
  moreover have "(0::int) \<le> int n - 1" using assms by simp
  ultimately show "Max (set (map int [0..<n])) = int n - 1"
    by (intro Max_eqI) auto
qed

lemma singletons_norm:
  assumes "r < n"
  shows "aggregate_norm (map int [0..<n]) (replicate n 1) (int r) = 1"
proof -
  have "(\<Sum>q\<leftarrow>[0..<n]. if map int [0..<n] ! q = int r then replicate n 1 ! q * replicate n 1 ! q else 0)
      = (\<Sum>q\<leftarrow>[0..<n]. if q = r then (1::real) else 0)"
    by (rule sum_list_upt_cong) simp
  also have "\<dots> = 1" by (rule sum_list_upt_delta [OF assms])
  finally show ?thesis by (simp add: aggregate_norm_def)
qed

lemma fit_singletons:
  assumes "0 < n"
  shows "fit_candidates (map int [0..<n]) (replicate n 1)
     = Some (identity_pattern n (replicate n 1), replicate n 1)"
proof -
  let ?aggs = "map int [0..<n]"
  have ne: "?aggs \<noteq> []" using assms by simp
  have m: "Max (set ?aggs) = int n - 1" by (rule singletons_ids(1) [OF assms])
  have ids: "set ?aggs = {0..Max (set ?aggs)}" unfolding m by (rule singletons_ids(2) [OF assms])
  have len: "length (replicate n (1::real)) = length ?aggs" by simp
  have nm: "nat (Max (set ?aggs) + 1) = n" unfolding m by simp
  have v: "map (\<lambda>r. replicate n (1::real) ! r / aggregate_norm ?aggs (replicate n 1) (?aggs ! r)) [0..<n]
      = replicate n 1"
    by (rule nth_equalityI) (simp_all add: singletons_norm)
  have c: "map (\<lambda>a. aggregate_norm ?aggs (replicate n 1) (int a)) [0..<n] = replicate n 1"
    by (rule nth_equalityI) (simp_all add: singletons_norm)
  have e: "fit_candidates ?aggs (replicate n 1) =
     Some (\<lparr> num_rows = n, num_cols = n, num_entries = n, row_indices = map int [0..<n],
             column_indices = ?aggs,
             vals = map (\<lambda>r. replicate n (1::real) ! r / aggregate_norm ?aggs (replicate n 1) (?aggs ! r)) [0..<n] \<rparr>,
           map (\<lambda>a. aggregate_norm ?aggs (replicate n 1) (int a)) [0..<n])"
    using fit_candidates_all_ids [OF ne ids len] unfolding nm by simp
  show ?thesis unfolding e v c identity_pattern_def by (rule refl)
qed

lemma zip3_maps:
  "zip (map f xs) (zip (map g xs) (map h xs)) = map (\<lambda>x. (f x, g x, h x)) xs"
  by (induction xs) simp_all

lemma dense_entries:
  "coo_entries (dense_matrix n m f)
     = map (\<lambda>p. (int (fst p), int (snd p), f (fst p) (snd p))) (List.product [0..<n] [0..<m])"
  by (simp add: coo_entries_def dense_matrix_def zip3_maps)

lemma filter_eq_distinct:
  "distinct xs \<Longrightarrow> filter (\<lambda>x. x = a) xs = (if a \<in> set xs then [a] else [])"
  by (induction xs) auto

lemma dense_position:
  assumes "i < n" "j < m"
  shows "filter (\<lambda>e. fst e = int i \<and> fst (snd e) = int j) (coo_entries (dense_matrix n m f))
     = [(int i, int j, f i j)]"
proof -
  let ?F = "\<lambda>p. (int (fst p), int (snd p), f (fst p) (snd p))"
  have "filter (\<lambda>e. fst e = int i \<and> fst (snd e) = int j) (map ?F (List.product [0..<n] [0..<m]))
      = map ?F (filter (\<lambda>p. p = (i, j)) (List.product [0..<n] [0..<m]))"
    by (simp add: filter_map comp_def prod_eq_iff)
  also have "filter (\<lambda>p. p = (i, j)) (List.product [0..<n] [0..<m]) = [(i, j)]"
    using assms by (simp add: filter_eq_distinct distinct_product)
  finally show ?thesis by (simp add: dense_entries)
qed

lemma entry_dense:
  assumes "i < n" "j < m"
  shows "entry (dense_matrix n m f) (int i) (int j) = f i j"
  by (simp add: entry_def dense_position [OF assms])

lemma dense_wf: "coo_wf (dense_matrix n m f)"
  by (simp add: coo_wf_def dense_matrix_def)

lemma dense_dims [simp]:
  "num_rows (dense_matrix n m f) = n" "num_cols (dense_matrix n m f) = m"
  "num_entries (dense_matrix n m f) = n * m"
  by (simp_all add: dense_matrix_def)

lemma dense_indices:
  "\<forall>r\<in>set (row_indices (dense_matrix n m f)). 0 \<le> r \<and> r < int n"
  "\<forall>c\<in>set (column_indices (dense_matrix n m f)). 0 \<le> c \<and> c < int m"
  by (auto simp: dense_matrix_def)

lemma dense_diagonal:
  "extract_diagonal (dense_matrix n n f) = map (\<lambda>i. f i i) [0..<n]"
proof -
  have "map (\<lambda>i. case filter (\<lambda>e. fst e = int i \<and> fst (snd e) = int i)
                        (coo_entries (dense_matrix n n f)) of
                 [] \<Rightarrow> 0 | e # es \<Rightarrow> snd (snd (last (e # es)))) [0..<n]
      = map (\<lambda>i. f i i) [0..<n]"
    by (rule map_cong) (simp_all add: dense_position)
  then show ?thesis by (simp add: extract_diagonal_def)
qed

lemma dense_cong:
  assumes "\<And>i j. i < n \<Longrightarrow> j < m \<Longrightarrow> f i j = g i j"
  shows "dense_matrix n m f = dense_matrix n m g"
  using assms by (simp add: dense_matrix_def)

lemma greedy_fold_diagonal:
  assumes d: "\<forall>p\<in>set pat. fst p = snd p"
  shows "i \<le> n \<Longrightarrow>
     fold (greedy_step pat) [0..<i] (replicate n (- 1), 0)
       = (map int [0..<i] @ replicate (n - i) (- 1), int i)"
proof (induction i)
  case 0
  show ?case by simp
next
  case (Suc i)
  let ?ids = "map int [0..<i] @ replicate (n - i) (- 1)"
  have i: "i < n" using Suc.prems by simp
  have IH: "fold (greedy_step pat) [0..<i] (replicate n (- 1), 0) = (?ids, int i)"
    using Suc.IH i by simp
  have len: "length ?ids = n" using i by simp
  have at: "?ids ! j = (if j < i then int j else - 1)" if "j < n" for j
    using that by (simp add: nth_append)
  have off: "(int i, int j) \<notin> set pat" if "j \<noteq> i" for j
    using d that by fastforce
  have new: "map (\<lambda>j. if ?ids ! j = - 1 \<and> (j = i \<or> (int i, int j) \<in> set pat)
                      then int i else ?ids ! j) [0..<n]
      = map int [0..<Suc i] @ replicate (n - Suc i) (- 1)"
  proof (rule nth_equalityI)
    show "length (map (\<lambda>j. if ?ids ! j = - 1 \<and> (j = i \<or> (int i, int j) \<in> set pat)
                      then int i else ?ids ! j) [0..<n])
        = length (map int [0..<Suc i] @ replicate (n - Suc i) (- 1))"
      using i by simp
  next
    fix j assume "j < length (map (\<lambda>j. if ?ids ! j = - 1 \<and> (j = i \<or> (int i, int j) \<in> set pat)
                      then int i else ?ids ! j) [0..<n])"
    then have j: "j < n" by simp
    have r: "(map int [0..<Suc i] @ replicate (n - Suc i) (- 1)) ! j
        = (if j < Suc i then int j else - 1)"
      using j by (simp add: nth_append del: upt_Suc)
    show "map (\<lambda>j. if ?ids ! j = - 1 \<and> (j = i \<or> (int i, int j) \<in> set pat)
                      then int i else ?ids ! j) [0..<n] ! j
        = (map int [0..<Suc i] @ replicate (n - Suc i) (- 1)) ! j"
      unfolding r using j off [of j] by (cases "j = i") (auto simp: at simp del: upt_Suc)
  qed
  have "fold (greedy_step pat) [0..<Suc i] (replicate n (- 1), 0)
      = greedy_step pat i (?ids, int i)"
    by (simp add: IH)
  also have "\<dots> = (map int [0..<Suc i] @ replicate (n - Suc i) (- 1), int (Suc i))"
    unfolding greedy_step_def fst_conv snd_conv len new [symmetric]
    using at [OF i] by simp
  finally show ?case .
qed

lemma greedy_diagonal:
  assumes "\<forall>p\<in>set (zip (row_indices C) (column_indices C)). fst p = snd p"
  shows "greedy_aggregation C init = map int [0..<length init]"
  using greedy_fold_diagonal [OF assms, of "length init" "length init"]
  by (simp add: greedy_aggregation_def)

lemma laplacian_strength:
  assumes s: "s \<noteq> 0" and th: "1 < th * (real n - 1)"
  shows "num_rows (symmetric_strength (complete_laplacian n s) th) = n"
    and "\<forall>p\<in>set (zip (row_indices (symmetric_strength (complete_laplacian n s) th))
                     (column_indices (symmetric_strength (complete_laplacian n s) th))).
           fst p = snd p"
proof -
  let ?M = "complete_laplacian n s"
  let ?f = "\<lambda>i j. s * (if i = j then real n - 1 else - 1)"
  let ?P = "\<lambda>e. fst e = fst (snd e)
             \<or> th * th * \<bar>entry ?M (fst e) (fst e) * entry ?M (fst (snd e)) (fst (snd e))\<bar>
                 \<le> snd (snd e) * snd (snd e)"
  show "num_rows (symmetric_strength ?M th) = n"
    by (simp add: symmetric_strength_def Let_def complete_laplacian_def)
  have weak: "fst e = fst (snd e)" if e: "e \<in> set (coo_entries ?M)" and p: "?P e" for e
  proof (rule ccontr)
    assume ne: "fst e \<noteq> fst (snd e)"
    from e obtain i j where i: "i < n" and j: "j < n" and ee: "e = (int i, int j, ?f i j)"
      by (auto simp: complete_laplacian_def dense_entries)
    from ne ee have ij: "i \<noteq> j" by auto
    have di: "entry ?M (int i) (int i) = s * (real n - 1)"
      and dj: "entry ?M (int j) (int j) = s * (real n - 1)"
      using i j by (simp_all add: complete_laplacian_def entry_dense)
    from p ne have "th * th * \<bar>entry ?M (fst e) (fst e) * entry ?M (fst (snd e)) (fst (snd e))\<bar>
        \<le> snd (snd e) * snd (snd e)" by blast
    then have "th * th * \<bar>(s * (real n - 1)) * (s * (real n - 1))\<bar> \<le> s * s"
      using ij by (simp add: ee di dj)
    moreover define y where "y = real n - 1"
    ultimately have "th * th * \<bar>(s * y) * (s * y)\<bar> \<le> s * s" by simp
    moreover have "\<bar>(s * y) * (s * y)\<bar> = (s * y) * (s * y)" by simp
    ultimately have "th * th * ((s * y) * (s * y)) \<le> s * s" by simp
    then have "(th * y) * (th * y) * (s * s) \<le> 1 * (s * s)" by (simp add: mult_ac)
    then have "(th * (real n - 1)) * (th * (real n - 1)) * (s * s) \<le> 1 * (s * s)"
      by (simp only: y_def)
    moreover have "0 < s * s" using s by (auto simp: zero_less_mult_iff)
    ultimately have "(th * (real n - 1)) * (th * (real n - 1)) \<le> 1"
      by (simp only: mult_le_cancel_right)
    moreover have "1 * 1 < (th * (real n - 1)) * (th * (real n - 1))"
      using th by (intro mult_strict_mono) simp_all
    ultimately show False by simp
  qed
  show "\<forall>p\<in>set (zip (row_indices (symmetric_strength ?M th))
                     (column_indices (symmetric_strength ?M th))). fst p = snd p"
  proof
    fix p assume "p \<in> set (zip (row_indices (symmetric_strength ?M th))
                     (column_indices (symmetric_strength ?M th)))"
    then have "p \<in> set (map (\<lambda>e. (fst e, fst (snd e))) (filter ?P (coo_entries ?M)))"
      by (simp add: symmetric_strength_def Let_def zip_map_map zip_same_conv_map)
    then obtain e where "e \<in> set (coo_entries ?M)" "?P e" "p = (fst e, fst (snd e))" by auto
    with weak show "fst p = snd p" by simp
  qed
qed

lemma smooth_prolongator_entry:
  assumes ok: "smooth_inputs_ok S T" and seq: "row_indices T = map int [0..<num_rows T]"
    and sm: "smooth_prolongator ext S T omega rho = Some P"
  shows "entry P i k
     = entry T i k - smooth_lambda ext S omega rho
         * (\<Sum>j\<leftarrow>[0..<num_rows T]. entry S i (int j) * entry T (int j) k)
         / extract_diagonal S ! nat i"
proof -
  let ?lam = "smooth_lambda ext S omega rho"
  have P: "P = coo_of_reduced (num_rows S) (num_cols T) (reduced_entries (smooth_temp ?lam S T))"
    using smooth_prolongator_eq [OF ok, of ext omega rho] sm by simp
  have "entry P i k
      = sum_list (map (\<lambda>e. snd (snd e))
          (filter (\<lambda>e. fst e = i \<and> fst (snd e) = k) (smooth_temp ?lam S T)))"
    by (simp only: P entry_coo_of_reduced reduced_entries_sum)
  also have "\<dots> = entry T i k - ?lam * (\<Sum>e\<leftarrow>[0..<num_entries S].
          if row_indices S ! e = i \<and> column_indices T ! nat (column_indices S ! e) = k
          then vals S ! e * vals T ! nat (column_indices S ! e) else 0)
        / extract_diagonal S ! nat i"
    by (rule smooth_temp_sum [OF ok])
  finally show ?thesis by (simp only: smooth_product_sum [OF ok seq])
qed

lemma identity_pattern_entry:
  assumes "j < n" "length vs = n"
  shows "entry (identity_pattern n vs) (int j) k = (if int j = k then vs ! j else 0)"
  using entry_one_per_row [of "identity_pattern n vs" j k] assms
  by (simp add: identity_pattern_def coo_wf_def)

lemma laplacian_smooth_ok:
  assumes "0 < n"
  shows "smooth_inputs_ok (complete_laplacian n s) (identity_pattern n (replicate n 1))"
  unfolding smooth_inputs_ok_def complete_laplacian_def
  using assms dense_indices [of n n] dense_wf [of n n]
  by (simp add: identity_pattern_def coo_wf_def)

lemma laplacian_smooth:
  assumes n: "1 < n" and s: "s \<noteq> 0"
  shows "\<exists>P. smooth_prolongator ext (complete_laplacian n s)
                (identity_pattern n (replicate n 1)) omega rho = Some P
     \<and> coo_wf P \<and> num_rows P = n \<and> num_cols P = n
     \<and> (\<forall>i<n. \<forall>j<n. entry P (int i) (int j)
           = (if i = j then 1 else 0)
             - smooth_lambda ext (complete_laplacian n s) omega rho
                 * (if i = j then real n - 1 else - 1) / (real n - 1))"
proof -
  let ?S = "complete_laplacian n s" and ?T = "identity_pattern n (replicate n (1::real))"
  let ?lam = "smooth_lambda ext ?S omega rho"
  let ?L = "\<lambda>i j. if i = j then real n - 1 else - 1"
  have n0: "0 < n" using n by simp
  have ok: "smooth_inputs_ok ?S ?T" by (rule laplacian_smooth_ok [OF n0])
  have seq: "row_indices ?T = map int [0..<num_rows ?T]" by (simp add: identity_pattern_def)
  have rT: "num_rows ?T = n" "num_cols ?T = n" by (simp_all add: identity_pattern_def)
  from smooth_prolongator_eq [OF ok, of ext omega rho] obtain P where
    sm: "smooth_prolongator ext ?S ?T omega rho = Some P" by blast
  note wf = smooth_prolongator_wf [OF sm]
  have e: "entry P (int i) (int j) = (if i = j then 1 else 0) - ?lam * ?L i j / (real n - 1)"
    if i: "i < n" and j: "j < n" for i j
  proof -
    have "(\<Sum>k\<leftarrow>[0..<n]. entry ?S (int i) (int k) * entry ?T (int k) (int j))
        = (\<Sum>k\<leftarrow>[0..<n]. if k = j then entry ?S (int i) (int k) else 0)"
      by (rule sum_list_upt_cong) (simp add: identity_pattern_entry)
    also have "\<dots> = entry ?S (int i) (int j)" by (rule sum_list_upt_delta [OF j])
    also have "\<dots> = s * ?L i j" using i j by (simp add: complete_laplacian_def entry_dense)
    finally have sum: "(\<Sum>k\<leftarrow>[0..<n]. entry ?S (int i) (int k) * entry ?T (int k) (int j))
        = s * ?L i j" .
    have d: "extract_diagonal ?S ! nat (int i) = s * (real n - 1)"
      using i by (simp add: complete_laplacian_def dense_diagonal)
    have t: "entry ?T (int i) (int j) = (if i = j then 1 else 0)"
      using i by (simp add: identity_pattern_entry)
    have "entry P (int i) (int j)
        = (if i = j then 1 else 0) - ?lam * (s * ?L i j) / (s * (real n - 1))"
      unfolding smooth_prolongator_entry [OF ok seq sm] rT sum d t ..
    also have "?lam * (s * ?L i j) / (s * (real n - 1)) = ?lam * ?L i j / (real n - 1)"
      using s by simp
    finally show ?thesis .
  qed
  from sm wf e show ?thesis by (simp add: rT complete_laplacian_def)
qed

lemma sum_rank_one:
  fixes a b c d :: real
  assumes i: "i < n" and j: "j < n"
  shows "(\<Sum>k\<leftarrow>[0..<n]. (a * (if i = k then 1 else 0) + b) * (c * (if k = j then 1 else 0) + d))
     = a * c * (if i = j then 1 else 0) + a * d + b * c + real n * (b * d)"
proof -
  have t: "(a * (if i = k then 1 else 0) + b) * (c * (if k = j then 1 else 0) + d)
      = (if k = i then a * c * (if i = j then 1 else 0) + a * d else 0)
        + (if k = j then b * c else 0) + b * d" for k
    by (simp add: algebra_simps)
  have "(\<Sum>k\<leftarrow>[0..<n]. (a * (if i = k then 1 else 0) + b) * (c * (if k = j then 1 else 0) + d))
      = (\<Sum>k\<in>{0..<n}. (if k = i then a * c * (if i = j then 1 else 0) + a * d else 0)
        + (if k = j then b * c else 0) + b * d)"
    by (simp only: t interv_sum_list_conv_sum_set_nat set_upt)
  also have "\<dots> = (\<Sum>k\<in>{0..<n}. if k = i then a * c * (if i = j then 1 else 0) + a * d else 0)
      + (\<Sum>k\<in>{0..<n}. if k = j then b * c else 0) + (\<Sum>k\<in>{0..<n}. b * d)"
    by (simp only: sum.distrib)
  also have "\<dots> = a * c * (if i = j then 1 else 0) + a * d + b * c + real n * (b * d)"
    using i j by (simp only: sum.delta finite_atLeastLessThan) simp
  finally show ?thesis .
qed

lemma laplacian_galerkin:
  assumes n: "1 < n" and wf: "coo_wf P" and dims: "num_rows P = n" "num_cols P = n"
    and p: "\<forall>i<n. \<forall>j<n. entry P (int i) (int j)
           = (if i = j then 1 else 0) - lam * (if i = j then real n - 1 else - 1) / (real n - 1)"
  shows "dense_product (transpose_coo P) (dense_product (complete_laplacian n s) P)
     = complete_laplacian n
         (s * ((1 - lam * real n / (real n - 1)) * (1 - lam * real n / (real n - 1))))"
proof -
  define mu where "mu = lam / (real n - 1)"
  define c where "c = 1 - mu * real n"
  have n1: "real n - 1 \<noteq> 0" using n by simp
  have pf: "entry P (int k) (int j) = c * (if k = j then 1 else 0) + mu"
    if "k < n" "j < n" for k j
  proof -
    have "lam = mu * (real n - 1)" using n1 by (simp add: mu_def)
    then have "1 - lam = c + mu" by (simp add: c_def algebra_simps)
    then show ?thesis using p that n1 by (simp add: mu_def)
  qed
  have lf: "s * (if i = k then real n - 1 else - 1) = (s * real n) * (if i = k then 1 else 0) + (- s)"
    for i k :: nat
    by (simp add: algebra_simps)
  let ?ap = "\<lambda>i j. \<Sum>k\<leftarrow>[0..<n]. entry (complete_laplacian n s) (int i) (int k) * entry P (int k) (int j)"
  have ap: "?ap i j = (s * c) * real n * (if i = j then 1 else 0) + (- (s * c))"
    if i: "i < n" and j: "j < n" for i j
  proof -
    have "?ap i j = (\<Sum>k\<leftarrow>[0..<n]. ((s * real n) * (if i = k then 1 else 0) + (- s))
        * (c * (if k = j then 1 else 0) + mu))"
      by (rule sum_list_upt_cong)
        (simp only: complete_laplacian_def entry_dense [OF i] pf [OF _ j] lf)
    also have "\<dots> = (s * real n) * c * (if i = j then 1 else 0) + (s * real n) * mu
        + (- s) * c + real n * ((- s) * mu)"
      by (rule sum_rank_one [OF i j])
    also have "\<dots> = (s * c) * real n * (if i = j then 1 else 0) + (- (s * c))"
      by (simp add: algebra_simps)
    finally show ?thesis .
  qed
  let ?AP = "dense_product (complete_laplacian n s) P"
  have AP: "?AP = dense_matrix n n ?ap"
    by (simp add: dense_product_def dims complete_laplacian_def)
  let ?g = "\<lambda>i j. \<Sum>k\<leftarrow>[0..<n]. entry (transpose_coo P) (int i) (int k) * entry ?AP (int k) (int j)"
  have g: "?g i j = s * (c * c) * (if i = j then real n - 1 else - 1)"
    if i: "i < n" and j: "j < n" for i j
  proof -
    have "?g i j = (\<Sum>k\<leftarrow>[0..<n]. (c * (if i = k then 1 else 0) + mu)
        * ((s * c) * real n * (if k = j then 1 else 0) + (- (s * c))))"
    proof (rule sum_list_upt_cong)
      fix k assume k: "k < n"
      have "entry (transpose_coo P) (int i) (int k) = entry P (int k) (int i)"
        by (rule entry_transpose_coo [OF wf])
      also have "\<dots> = c * (if i = k then 1 else 0) + mu"
        using pf [OF k i] by (simp add: eq_commute)
      finally have r: "entry (transpose_coo P) (int i) (int k) = c * (if i = k then 1 else 0) + mu" .
      have a: "entry ?AP (int k) (int j) = (s * c) * real n * (if k = j then 1 else 0) + (- (s * c))"
        unfolding AP entry_dense [OF k j] by (rule ap [OF k j])
      show "entry (transpose_coo P) (int i) (int k) * entry ?AP (int k) (int j)
          = (c * (if i = k then 1 else 0) + mu)
            * ((s * c) * real n * (if k = j then 1 else 0) + (- (s * c)))"
        by (simp only: r a)
    qed
    also have "\<dots> = c * ((s * c) * real n) * (if i = j then 1 else 0) + c * (- (s * c))
        + mu * ((s * c) * real n) + real n * (mu * (- (s * c)))"
      by (rule sum_rank_one [OF i j])
    also have "\<dots> = s * (c * c) * (if i = j then real n - 1 else - 1)"
      by (simp add: algebra_simps)
    finally show ?thesis .
  qed
  have "dense_product (transpose_coo P) ?AP = dense_matrix n n ?g"
    by (simp add: dense_product_def transpose_coo_def Let_def dims AP)
  also have "\<dots> = dense_matrix n n (\<lambda>i j. s * (c * c) * (if i = j then real n - 1 else - 1))"
    by (rule dense_cong) (rule g)
  also have "\<dots> = complete_laplacian n (s * (c * c))" by (simp add: complete_laplacian_def)
  finally show ?thesis by (simp add: c_def mu_def)
qed

lemma dense_ext_fields:
  "multiply_mm dense_ext = dense_product"
  "symmetric_strength_of_connection dense_ext = symmetric_strength"
  "standard_aggregation dense_ext = greedy_aggregation"
  "ritz_spectral_radius dense_ext lin = 2"
  by (simp_all add: dense_ext_def sample_ext_def)

lemma laplacian_step:
  assumes n: "1 < n" and th: "1 < th * (real n - 1)" and s: "s \<noteq> 0" and ne: "ls \<noteq> []"
    and A: "lvl_A (last ls) = complete_laplacian n s" and B: "lvl_B (last ls) = replicate n 1"
  shows "\<exists>P. extend_hierarchy dense_ext th ls =
     Some (butlast ls @
       [finished_level dense_ext th (last ls) P,
        pushed_level dense_ext (complete_laplacian n (s * laplacian_factor n)) (replicate n 1)])"
proof -
  let ?l = "last ls" and ?S = "complete_laplacian n s"
  have n0: "0 < n" using n by simp
  have ag: "level_aggregates dense_ext th ?l = map int [0..<n]"
    using greedy_diagonal [OF laplacian_strength(2) [OF s th], of "replicate n 0"]
    by (simp add: level_aggregates_def A dense_ext_fields laplacian_strength(1) [OF s th])
  have rho: "level_rho dense_ext ?l = 2"
    by (simp add: level_rho_def estimate_rho_Dinv_A_def dense_ext_fields)
  have lam: "smooth_lambda dense_ext ?S (4 / 3) 2 = 2 / 3"
    by (simp add: smooth_lambda_def)
  have fit: "fit_candidates (map int [0..<n]) (replicate n 1)
      = Some (identity_pattern n (replicate n 1), replicate n 1)"
    by (rule fit_singletons [OF n0])
  from laplacian_smooth [OF n s, of dense_ext "4 / 3" 2] obtain P where
    sm: "smooth_prolongator dense_ext ?S (identity_pattern n (replicate n 1)) (4 / 3) 2 = Some P"
    and wf: "coo_wf P" and dims: "num_rows P = n" "num_cols P = n"
    and p: "\<forall>i<n. \<forall>j<n. entry P (int i) (int j)
           = (if i = j then 1 else 0) - 2 / 3 * (if i = j then real n - 1 else - 1) / (real n - 1)"
    unfolding lam by blast
  have g: "galerkin dense_ext ?S P = complete_laplacian n (s * laplacian_factor n)"
    unfolding galerkin_def dense_ext_fields laplacian_factor_def
    by (rule laplacian_galerkin [OF n wf dims p])
  have "extend_hierarchy dense_ext th ls =
     Some (butlast ls @
       [finished_level dense_ext th ?l P,
        pushed_level dense_ext (complete_laplacian n (s * laplacian_factor n)) (replicate n 1)])"
    using ne by (simp add: extend_hierarchy_eq ag B A rho fit sm g)
  then show ?thesis ..
qed

lemma laplacian_loop:
  assumes n: "100 < n" and th: "1 < th * (real n - 1)" and c: "laplacian_factor n \<noteq> 0"
  shows "s \<noteq> 0 \<Longrightarrow> ls \<noteq> [] \<Longrightarrow> lvl_A (last ls) = complete_laplacian n s \<Longrightarrow>
         lvl_B (last ls) = replicate n 1 \<Longrightarrow>
         (\<exists>ls'. extend_times k dense_ext th ls = Some ls' \<and> length ls' = length ls + k
            \<and> num_rows (lvl_A (last ls')) = n)
         \<and> coarsen k dense_ext th ls = None"
proof (induction k arbitrary: s ls)
  case 0
  then show ?case using n by (simp add: complete_laplacian_def)
next
  case (Suc k)
  have n1: "1 < n" using n by simp
  from laplacian_step [OF n1 th Suc.prems] obtain P where
    e: "extend_hierarchy dense_ext th ls =
     Some (butlast ls @
       [finished_level dense_ext th (last ls) P,
        pushed_level dense_ext (complete_laplacian n (s * laplacian_factor n)) (replicate n 1)])"
    by blast
  let ?ls' = "butlast ls @
       [finished_level dense_ext th (last ls) P,
        pushed_level dense_ext (complete_laplacian n (s * laplacian_factor n)) (replicate n 1)]"
  have big: "100 < num_rows (lvl_A (last ls))"
    using n by (simp add: Suc.prems(3) complete_laplacian_def)
  have s': "s * laplacian_factor n \<noteq> 0" using Suc.prems(1) c by simp
  have l: "length ?ls' = Suc (length ls)" using Suc.prems(2) by simp
  have IH: "(\<exists>ls''. extend_times k dense_ext th ?ls' = Some ls'' \<and> length ls'' = length ?ls' + k
            \<and> num_rows (lvl_A (last ls'')) = n)
         \<and> coarsen k dense_ext th ?ls' = None"
    by (rule Suc.IH [OF s']) simp_all
  show ?case
    using IH e big Suc.prems(2) l
    by (simp del: coarsen.simps add: coarsen_Suc)
qed

text \<open>
  Claim C6 as stated fails: the loop has no guard, and it does not end for every
  connected matrix with off-diagonal entries. For the Laplacian of the complete graph on
  \<open>101\<close> vertices and \<open>\<theta> = 1 / 2\<close> no off-diagonal entry is strong, aggregation puts every row
  into an aggregate of its own, and the coarse operator is the same Laplacian times a
  nonzero factor: every pass of the loop returns, the operator it pushes has \<open>101\<close> rows
  again, and the constructor does not return, whatever the number of passes allowed.
\<close>

theorem coarsening_never_ends_counterexample:
  "\<forall>k. (\<exists>ls. extend_times k dense_ext (1 / 2)
                 [first_level dense_ext (complete_laplacian 101 1)] = Some ls
             \<and> length ls = k + 1 \<and> num_rows (lvl_A (last ls)) = 101)
        \<and> build k dense_ext (complete_laplacian 101 1) (1 / 2) = None"
proof
  fix k
  let ?l = "first_level dense_ext (complete_laplacian 101 1)"
  have c: "laplacian_factor 101 \<noteq> 0" by (simp add: laplacian_factor_def)
  have A: "lvl_A (last [?l]) = complete_laplacian 101 1"
    and B: "lvl_B (last [?l]) = replicate 101 1"
    by (simp_all add: first_level_def complete_laplacian_def)
  have "(\<exists>ls'. extend_times k dense_ext (1 / 2) [?l] = Some ls' \<and> length ls' = length [?l] + k
            \<and> num_rows (lvl_A (last ls')) = 101)
         \<and> coarsen k dense_ext (1 / 2) [?l] = None"
    by (rule laplacian_loop [OF _ _ c _ _ A B]) simp_all
  then show "(\<exists>ls. extend_times k dense_ext (1 / 2) [?l] = Some ls
             \<and> length ls = k + 1 \<and> num_rows (lvl_A (last ls)) = 101)
        \<and> build k dense_ext (complete_laplacian 101 1) (1 / 2) = None"
    by (simp add: build_def first_level_def resize_def del: coarsen.simps)
qed

end
